theory Spec2Isabelle
  imports Complex_Main
begin

section \<open>Errors and tensors\<close>

text \<open>
  The Python exceptions that the modelled code can raise. The tensor library reports
  every shape or index violation as a \<open>RuntimeError\<close>.
\<close>

datatype error =
    TypeError
  | IndexError
  | ZeroDivisionError
  | ValueError
  | AssertionError
  | RuntimeError

text \<open>
  A 4-D tensor carries its shape \<open>(N, C, H, W)\<close> and its elements as nested lists
  (batch, channel, row, column). The shape is stored beside the elements because a
  tensor with an empty outer dimension still has its inner sizes, and the code
  branches on them. Elements are rationals: every numeric claim is about exact
  arithmetic.
\<close>

datatype 'a tensor =
  Tensor (dimN: nat) (dimC: nat) (dimH: nat) (dimW: nat) (cells: "'a list list list list")

definition build :: "nat \<Rightarrow> nat \<Rightarrow> nat \<Rightarrow> nat \<Rightarrow> (nat \<Rightarrow> nat \<Rightarrow> nat \<Rightarrow> nat \<Rightarrow> 'a) \<Rightarrow> 'a tensor" where
  "build n c h w f =
     Tensor n c h w
       (map (\<lambda>i. map (\<lambda>j. map (\<lambda>y. map (\<lambda>x. f i j y x) [0..<w]) [0..<h]) [0..<c]) [0..<n])"

definition cell :: "'a tensor \<Rightarrow> nat \<Rightarrow> nat \<Rightarrow> nat \<Rightarrow> nat \<Rightarrow> 'a" where
  "cell t i j y x = cells t ! i ! j ! y ! x"

definition well_shaped :: "'a tensor \<Rightarrow> bool" where
  "well_shaped t \<longleftrightarrow>
     length (cells t) = dimN t \<and>
     (\<forall>b \<in> set (cells t). length b = dimC t \<and>
        (\<forall>p \<in> set b. length p = dimH t \<and> (\<forall>r \<in> set p. length r = dimW t)))"

definition shape :: "'a tensor \<Rightarrow> nat \<times> nat \<times> nat \<times> nat" where
  "shape t = (dimN t, dimC t, dimH t, dimW t)"

section \<open>Tensor operations used by the code\<close>

text \<open>
  The operations of the tensor library, each with the meaning its documentation gives
  it and with the shape checks under which the library raises \<open>RuntimeError\<close>.
\<close>

subsection \<open>Strided slicing\<close>

text \<open>
  \<open>x[..., i:H:sh, j:W:sw]\<close> with non-negative starts and positive steps: along a
  dimension of size \<open>stop\<close> the slice holds the indices \<open>start, start + step, ...\<close>
  below \<open>stop\<close>.
\<close>

definition slice_len :: "nat \<Rightarrow> nat \<Rightarrow> nat \<Rightarrow> nat" where
  "slice_len start stop step = (stop - start + (step - 1)) div step"

definition strided :: "nat \<Rightarrow> nat \<Rightarrow> nat \<Rightarrow> nat \<Rightarrow> 'a tensor \<Rightarrow> 'a tensor" where
  "strided i sh j sw t =
     build (dimN t) (dimC t) (slice_len i (dimH t) sh) (slice_len j (dimW t) sw)
       (\<lambda>n c y x. cell t n c (i + y * sh) (j + x * sw))"

subsection \<open>Concatenation along the channel dimension\<close>

text \<open>
  \<open>torch.cat(ts, dim=1)\<close>: an empty list is refused, and so are tensors whose sizes
  differ in another dimension than the channels. The result lists, for every batch
  entry, the channels of the first tensor, then those of the second, and so on.
\<close>

definition cat1 :: "'a tensor list \<Rightarrow> error + 'a tensor" where
  "cat1 ts =
     (case ts of
        [] \<Rightarrow> Inl RuntimeError
      | t # rest \<Rightarrow>
          if \<forall>u \<in> set rest. dimN u = dimN t \<and> dimH u = dimH t \<and> dimW u = dimW t
          then Inr (Tensor (dimN t) (sum_list (map dimC ts)) (dimH t) (dimW t)
                      (map (\<lambda>n. concat (map (\<lambda>u. cells u ! n) ts)) [0..<dimN t]))
          else Inl RuntimeError)"

subsection \<open>Gathering along the channel dimension\<close>

text \<open>
  \<open>torch.tensor(index).unsqueeze(0).unsqueeze(-1).unsqueeze(-1).repeat(n, 1, h, w)\<close>:
  the list \<open>index\<close> laid along the channel dimension and repeated over batch, rows and
  columns.
\<close>

definition index_tensor :: "nat list \<Rightarrow> nat \<Rightarrow> nat \<Rightarrow> nat \<Rightarrow> nat tensor" where
  "index_tensor index n h w = build n (length index) h w (\<lambda>_ p _ _. index ! p)"

definition all_cells :: "'a tensor \<Rightarrow> 'a list" where
  "all_cells t = concat (concat (concat (cells t)))"

text \<open>
  \<open>torch.gather(inp, dim=1, index=idx)\<close>: \<open>out[n][p][y][x] = inp[n][idx[n][p][y][x]][y][x]\<close>,
  of the shape of \<open>idx\<close>. The index may not be larger than the input outside the
  gathered dimension, and each of its entries must be a channel of the input.
\<close>

definition gather1 :: "'a tensor \<Rightarrow> nat tensor \<Rightarrow> error + 'a tensor" where
  "gather1 inp idx =
     (if dimN idx \<le> dimN inp \<and> dimH idx \<le> dimH inp \<and> dimW idx \<le> dimW inp
         \<and> (\<forall>v \<in> set (all_cells idx). v < dimC inp)
      then Inr (build (dimN idx) (dimC idx) (dimH idx) (dimW idx)
                  (\<lambda>n p y x. cell inp n (cell idx n p y x) y x))
      else Inl RuntimeError)"

subsection \<open>Basic slicing\<close>

text \<open>
  A Python slice bound on a dimension of size \<open>L\<close>: a negative bound counts from the
  end, and every bound is clamped into \<open>0..L\<close>. An omitted start is \<open>0\<close>, an omitted
  stop is \<open>L\<close>. Note that \<open>-k\<close> for \<open>k = 0\<close> is the bound \<open>0\<close>, so \<open>s[:-0]\<close> is empty.
\<close>

definition slice_bound :: "int \<Rightarrow> nat \<Rightarrow> nat" where
  "slice_bound a L = (if a < 0 then nat (max (a + int L) 0) else min (nat a) L)"

definition slice_start :: "int option \<Rightarrow> nat \<Rightarrow> nat" where
  "slice_start a L = (case a of None \<Rightarrow> 0 | Some a \<Rightarrow> slice_bound a L)"

definition slice_stop :: "int option \<Rightarrow> nat \<Rightarrow> nat" where
  "slice_stop b L = (case b of None \<Rightarrow> L | Some b \<Rightarrow> slice_bound b L)"

text \<open>\<open>s[:, :, a1:b1, a2:b2]\<close>.\<close>

definition basic_slice :: "int option \<times> int option \<Rightarrow> int option \<times> int option \<Rightarrow> 'a tensor \<Rightarrow> 'a tensor" where
  "basic_slice rows cols t =
     (let lo1 = slice_start (fst rows) (dimH t); hi1 = slice_stop (snd rows) (dimH t);
          lo2 = slice_start (fst cols) (dimW t); hi2 = slice_stop (snd cols) (dimW t)
      in build (dimN t) (dimC t) (hi1 - lo1) (hi2 - lo2)
           (\<lambda>n c y x. cell t n c (lo1 + y) (lo2 + x)))"

subsection \<open>Cumulative sums and padding\<close>

text \<open>\<open>cumsum(dim=-1)\<close> and \<open>cumsum(dim=-2)\<close>: running sums along a row and down a column.\<close>

definition cumsum_w :: "rat tensor \<Rightarrow> rat tensor" where
  "cumsum_w t =
     build (dimN t) (dimC t) (dimH t) (dimW t)
       (\<lambda>n c y x. sum_list (map (\<lambda>x'. cell t n c y x') [0..<Suc x]))"

definition cumsum_h :: "rat tensor \<Rightarrow> rat tensor" where
  "cumsum_h t =
     build (dimN t) (dimC t) (dimH t) (dimW t)
       (\<lambda>n c y x. sum_list (map (\<lambda>y'. cell t n c y' x) [0..<Suc y]))"

text \<open>
  \<open>torch.nn.functional.pad(s, (l, r, t, b))\<close> in the default constant mode, with
  non-negative amounts: zeros to the left, right, top and bottom.
\<close>

definition pad_constant :: "nat \<Rightarrow> nat \<Rightarrow> nat \<Rightarrow> nat \<Rightarrow> rat tensor \<Rightarrow> rat tensor" where
  "pad_constant l r t b s =
     build (dimN s) (dimC s) (t + dimH s + b) (l + dimW s + r)
       (\<lambda>n c y x. if t \<le> y \<and> y < t + dimH s \<and> l \<le> x \<and> x < l + dimW s
                  then cell s n c (y - t) (x - l) else 0)"

text \<open>
  \<open>torch.nn.functional.pad(out, (l, r, t, b), mode='replicate')\<close>: the border
  elements are repeated; a negative amount crops. The library refuses an input with
  an empty channel, row or column dimension, and an output without rows or columns.
\<close>

definition clamp_index :: "int \<Rightarrow> nat \<Rightarrow> nat" where
  "clamp_index i L = nat (max 0 (min i (int L - 1)))"

definition pad_replicate :: "int \<times> int \<times> int \<times> int \<Rightarrow> rat tensor \<Rightarrow> error + rat tensor" where
  "pad_replicate pad2d s =
     (case pad2d of (l, r, t, b) \<Rightarrow>
        if dimC s = 0 \<or> dimH s = 0 \<or> dimW s = 0
           \<or> int (dimH s) + t + b < 1 \<or> int (dimW s) + l + r < 1
        then Inl RuntimeError
        else Inr (build (dimN s) (dimC s) (nat (int (dimH s) + t + b)) (nat (int (dimW s) + l + r))
                    (\<lambda>n c y x. cell s n c (clamp_index (int y - t) (dimH s))
                                         (clamp_index (int x - l) (dimW s)))))"

subsection \<open>Elementwise arithmetic\<close>

text \<open>
  Broadcasting: two sizes of a dimension are compatible when they are equal or one of
  them is 1; the operand of size 1 is repeated. Incompatible sizes raise.
\<close>

definition bdim :: "nat \<Rightarrow> nat \<Rightarrow> nat option" where
  "bdim a b = (if a = b then Some a else if a = 1 then Some b else if b = 1 then Some a else None)"

definition bidx :: "nat \<Rightarrow> nat \<Rightarrow> nat" where
  "bidx d i = (if d = 1 then 0 else i)"

definition pointwise :: "('a \<Rightarrow> 'a \<Rightarrow> 'a) \<Rightarrow> 'a tensor \<Rightarrow> 'a tensor \<Rightarrow> error + 'a tensor" where
  "pointwise f a b =
     (case (bdim (dimN a) (dimN b), bdim (dimC a) (dimC b), bdim (dimH a) (dimH b), bdim (dimW a) (dimW b)) of
        (Some n, Some c, Some h, Some w) \<Rightarrow>
          Inr (build n c h w
                 (\<lambda>i j y x. f (cell a (bidx (dimN a) i) (bidx (dimC a) j) (bidx (dimH a) y) (bidx (dimW a) x))
                              (cell b (bidx (dimN b) i) (bidx (dimC b) j) (bidx (dimH b) y) (bidx (dimW b) x))))
      | _ \<Rightarrow> Inl RuntimeError)"

text \<open>
  \<open>out / (k1 * k2)\<close>: division of every element by a Python int. In floating point a
  zero divisor gives \<open>inf\<close> or \<open>nan\<close> and no exception; here it gives the \<open>0\<close> of
  division by zero on the rationals. No property below reads such an element.
\<close>

definition div_scalar :: "rat tensor \<Rightarrow> int \<Rightarrow> rat tensor" where
  "div_scalar t k =
     build (dimN t) (dimC t) (dimH t) (dimW t) (\<lambda>n c y x. cell t n c y x / of_int k)"

subsection \<open>Global pooling and upsampling\<close>

text \<open>
  \<open>F.adaptive_avg_pool2d(x, 1)\<close>: the mean of every channel's feature map, as a
  \<open>1 \<times> 1\<close> map.
\<close>

definition adaptive_avg_pool2d :: "rat tensor \<Rightarrow> rat tensor" where
  "adaptive_avg_pool2d x =
     build (dimN x) (dimC x) 1 1
       (\<lambda>n c _ _. sum_list (concat (cells x ! n ! c)) / of_nat (dimH x * dimW x))"

text \<open>
  \<open>torch.nn.functional.interpolate(out, scale_factor=(r1, r2))\<close> in the default
  nearest mode with positive integer factors: every element is repeated \<open>r1\<close> times
  down and \<open>r2\<close> times across. The library refuses an input with an empty channel, row
  or column dimension.
\<close>

definition interpolate_nearest :: "int \<Rightarrow> int \<Rightarrow> rat tensor \<Rightarrow> error + rat tensor" where
  "interpolate_nearest r1 r2 t =
     (if r1 \<le> 0 \<or> r2 \<le> 0 \<or> dimC t = 0 \<or> dimH t = 0 \<or> dimW t = 0 then Inl RuntimeError
      else Inr (build (dimN t) (dimC t) (dimH t * nat r1) (dimW t * nat r2)
                  (\<lambda>n c y x. cell t n c (y div nat r1) (x div nat r2))))"

section \<open>UnPixelShuffle\<close>

text \<open>
  \<open>UnPixelShuffle.forward\<close>. The two nested loops over \<open>range(downscale_factor)\<close>
  collect the strided slices \<open>x[..., i:H:r, j:W:r]\<close>; the loops over \<open>range(C)\<close> and
  \<open>range(r**2)\<close> collect the channel indices \<open>i + j*C\<close>. For a factor below 1 both
  ranges are empty and \<open>torch.cat\<close> fails on the empty chunk list.
\<close>

definition UnPixelShuffle_forward :: "int \<Rightarrow> 'a tensor \<Rightarrow> error + 'a tensor" where
  "UnPixelShuffle_forward downscale_factor x =
     (let N = dimN x; C = dimC x; H = dimH x; W = dimW x;
          r = nat downscale_factor;
          chunk_list = concat (map (\<lambda>i. map (\<lambda>j. strided i r j r x) [0..<r]) [0..<r])
      in case cat1 chunk_list of
           Inl e \<Rightarrow> Inl e
         | Inr y \<Rightarrow>
             let index = concat (map (\<lambda>i. map (\<lambda>j. i + j * C) [0..<r ^ 2]) [0..<C])
             in gather1 y (index_tensor index N (H div r) (W div r)))"

text \<open>
  \<open>nn.PixelShuffle(upscale_factor)\<close>, the last layer of \<open>pixelshuffle_block\<close>, is a
  layer of the tensor library. Its documented meaning: an input of shape
  \<open>(N, C * r^2, H, W)\<close> becomes an output of shape \<open>(N, C, H * r, W * r)\<close> with
  \<open>out[n][c][h*r + i][w*r + j] = inp[n][c*r^2 + i*r + j][h][w]\<close>; the channel count
  must be a multiple of \<open>r^2\<close>.
\<close>

definition PixelShuffle_forward :: "int \<Rightarrow> 'a tensor \<Rightarrow> error + 'a tensor" where
  "PixelShuffle_forward upscale_factor x =
     (let r = nat upscale_factor
      in if upscale_factor \<le> 0 \<or> dimC x mod r ^ 2 \<noteq> 0 then Inl RuntimeError
         else Inr (build (dimN x) (dimC x div r ^ 2) (dimH x * r) (dimW x * r)
                     (\<lambda>n c y x'. cell x n (c * r ^ 2 + (y mod r) * r + x' mod r) (y div r) (x' div r))))"

section \<open>AvgPool2d: the module's attributes\<close>

text \<open>
  \<open>base_size\<close> is \<open>None\<close>, an int or a pair; \<open>kernel_size\<close> is \<open>None\<close> or a pair
  (a list of two ints once resolved); \<open>train_size\<close> is \<open>None\<close> or a sequence of ints,
  read at \<open>[-2]\<close> and \<open>[-1]\<close>.
\<close>

datatype size_arg = SizeInt int | SizePair int int

record AvgPool2d =
  kernel_size :: "(int \<times> int) option"
  base_size :: "size_arg option"
  auto_pad :: bool
  fast_imp :: bool
  rs :: "int list"
  max_r1 :: int
  max_r2 :: int
  train_size :: "int list option"

text \<open>\<open>__init__\<close>: \<open>self.rs = [5, 4, 3, 2, 1]\<close>, \<open>self.max_r1 = self.max_r2 = self.rs[0]\<close>.\<close>

definition AvgPool2d_init ::
  "(int \<times> int) option \<Rightarrow> size_arg option \<Rightarrow> bool \<Rightarrow> bool \<Rightarrow> int list option \<Rightarrow> AvgPool2d" where
  "AvgPool2d_init ks bs ap fi ts =
     \<lparr>kernel_size = ks, base_size = bs, auto_pad = ap, fast_imp = fi,
      rs = [5, 4, 3, 2, 1], max_r1 = 5, max_r2 = 5, train_size = ts\<rparr>"

subsection \<open>Choosing the subsampling rate\<close>

text \<open>
  \<open>[r for r in self.rs if h % r == 0]\<close>: the comprehension evaluates \<open>h % r\<close> for every
  \<open>r\<close> of the list, so a zero entry raises \<open>ZeroDivisionError\<close>; Python's \<open>%\<close> is
  the floored modulo, as \<open>mod\<close> on \<open>int\<close>.
\<close>

fun rates_dividing :: "int list \<Rightarrow> int \<Rightarrow> error + int list" where
  "rates_dividing [] h = Inr []"
| "rates_dividing (r # rest) h =
     (if r = 0 then Inl ZeroDivisionError
      else case rates_dividing rest h of
             Inl e \<Rightarrow> Inl e
           | Inr ys \<Rightarrow> Inr (if h mod r = 0 then r # ys else ys))"

text \<open>\<open>[...][0]\<close>: the first entry, \<open>IndexError\<close> on an empty list.\<close>

definition first_rate :: "int list \<Rightarrow> int \<Rightarrow> error + int" where
  "first_rate rates h =
     (case rates_dividing rates h of
        Inl e \<Rightarrow> Inl e
      | Inr [] \<Rightarrow> Inl IndexError
      | Inr (r # _) \<Rightarrow> Inr r)"

section \<open>AvgPool2d.forward\<close>

subsection \<open>Resolving the kernel size\<close>

text \<open>
  Lines 59 to 69 of the source. The statements run in order and each assignment to
  \<open>self\<close> stays when a later statement raises: \<open>train_size[-2]\<close> raises \<open>TypeError\<close>
  on \<open>None\<close> and \<open>IndexError\<close> on a sequence shorter than two, \<open>//\<close> raises
  \<open>ZeroDivisionError\<close> on a zero divisor, \<open>self.rs[0]\<close> raises \<open>IndexError\<close> on an empty
  list. Python's \<open>//\<close> is the floored division, as \<open>div\<close> on \<open>int\<close>.
\<close>

definition resolve_with :: "AvgPool2d \<Rightarrow> int \<Rightarrow> int \<Rightarrow> rat tensor \<Rightarrow> AvgPool2d \<times> error option" where
  "resolve_with st b0 b1 x =
     (let st2 = st\<lparr>kernel_size := Some (b0, b1)\<rparr>
      in case train_size st of
           None \<Rightarrow> (st2, Some TypeError)
         | Some ts \<Rightarrow>
             if length ts < 2 then (st2, Some IndexError)
             else
               let t2 = ts ! (length ts - 2); t1 = ts ! (length ts - 1)
               in if t2 = 0 then (st2, Some ZeroDivisionError)
                  else
                    let k0 = int (dimH x) * b0 div t2;
                        st3 = st2\<lparr>kernel_size := Some (k0, b1)\<rparr>
                    in if t1 = 0 then (st3, Some ZeroDivisionError)
                       else
                         let k1 = int (dimW x) * b1 div t1;
                             st4 = st3\<lparr>kernel_size := Some (k0, k1)\<rparr>
                         in case rs st of
                              [] \<Rightarrow> (st4, Some IndexError)
                            | r0 # _ \<Rightarrow>
                                (st4\<lparr>max_r1 := max 1 (r0 * int (dimH x) div t2),
                                      max_r2 := max 1 (r0 * int (dimW x) div t1)\<rparr>, None))"

text \<open>
  \<open>if self.kernel_size is None and self.base_size\<close>: \<open>None\<close> and the int \<open>0\<close> are
  false, a pair is true. An int \<open>base_size\<close> is first replaced by the pair of it.
\<close>

definition resolve_kernel :: "AvgPool2d \<Rightarrow> rat tensor \<Rightarrow> AvgPool2d \<times> error option" where
  "resolve_kernel st x =
     (if kernel_size st = None
      then case base_size st of
             None \<Rightarrow> (st, None)
           | Some (SizeInt b) \<Rightarrow>
               if b = 0 then (st, None)
               else resolve_with (st\<lparr>base_size := Some (SizePair b b)\<rparr>) b b x
           | Some (SizePair b0 b1) \<Rightarrow> resolve_with st b0 b1 x
      else (st, None))"

subsection \<open>The exact branch: integral image\<close>

text \<open>
  Lines 90 to 96: \<open>s\<close> is the double cumulative sum, padded with a zero row and a zero
  column; \<open>out = s4 + s1 - s2 - s3\<close> is evaluated left to right and divided by
  \<open>k1 * k2\<close>.
\<close>

definition integral_pool :: "int \<Rightarrow> int \<Rightarrow> rat tensor \<Rightarrow> error + rat tensor" where
  "integral_pool K0 K1 x =
     (let h = dimH x; w = dimW x;
          s = pad_constant 1 0 1 0 (cumsum_h (cumsum_w x));
          k1 = min (int h) K0; k2 = min (int w) K1;
          s1 = basic_slice (None, Some (- k1)) (None, Some (- k2)) s;
          s2 = basic_slice (None, Some (- k1)) (Some k2, None) s;
          s3 = basic_slice (Some k1, None) (None, Some (- k2)) s;
          s4 = basic_slice (Some k1, None) (Some k2, None) s
      in case pointwise (+) s4 s1 of
           Inl e \<Rightarrow> Inl e
         | Inr a \<Rightarrow>
             (case pointwise (-) a s2 of
                Inl e \<Rightarrow> Inl e
              | Inr b \<Rightarrow>
                  (case pointwise (-) b s3 of
                     Inl e \<Rightarrow> Inl e
                   | Inr out \<Rightarrow> Inr (div_scalar out (k1 * k2)))))"

subsection \<open>The fast branch: subsampled integral image\<close>

text \<open>
  Lines 79 to 88. The inner test of line 76 repeats the test of line 71, which has
  already returned, so only its \<open>else\<close> part can run. A slice step that is not
  positive raises \<open>ValueError\<close>.
\<close>

definition fast_pool :: "AvgPool2d \<Rightarrow> int \<Rightarrow> int \<Rightarrow> rat tensor \<Rightarrow> error + rat tensor" where
  "fast_pool st K0 K1 x =
     (case first_rate (rs st) (int (dimH x)) of
        Inl e \<Rightarrow> Inl e
      | Inr r1' \<Rightarrow>
          (case first_rate (rs st) (int (dimW x)) of
             Inl e \<Rightarrow> Inl e
           | Inr r2' \<Rightarrow>
               let r1 = min (max_r1 st) r1'; r2 = min (max_r2 st) r2'
               in if r1 \<le> 0 \<or> r2 \<le> 0 then Inl ValueError
                  else
                    let s = cumsum_h (cumsum_w (strided 0 (nat r1) 0 (nat r2) x));
                        h = dimH s; w = dimW s;
                        k1 = min (int h - 1) (K0 div r1); k2 = min (int w - 1) (K1 div r2)
                    in case pointwise (-) (basic_slice (None, Some (- k1)) (None, Some (- k2)) s)
                                          (basic_slice (None, Some (- k1)) (Some k2, None) s) of
                         Inl e \<Rightarrow> Inl e
                       | Inr a \<Rightarrow>
                           (case pointwise (-) a (basic_slice (Some k1, None) (None, Some (- k2)) s) of
                              Inl e \<Rightarrow> Inl e
                            | Inr b \<Rightarrow>
                                (case pointwise (+) b (basic_slice (Some k1, None) (Some k2, None) s) of
                                   Inl e \<Rightarrow> Inl e
                                 | Inr out \<Rightarrow> interpolate_nearest r1 r2 (div_scalar out (k1 * k2))))))"



subsection \<open>Padding back to the input size\<close>

text \<open>Lines 98 to 103.\<close>

definition auto_pad_out :: "rat tensor \<Rightarrow> rat tensor \<Rightarrow> error + rat tensor" where
  "auto_pad_out x out =
     (let h = int (dimH x); w = int (dimW x); h' = int (dimH out); w' = int (dimW out);
          pad2d = ((w - w') div 2, (w - w' + 1) div 2, (h - h') div 2, (h - h' + 1) div 2)
      in pad_replicate pad2d out)"

subsection \<open>The forward pass\<close>

text \<open>
  Lines 71 to 105, after the kernel size is resolved: \<open>self.kernel_size[0]\<close> raises
  \<open>TypeError\<close> when the kernel size is still \<open>None\<close>. This part reads the attributes and
  writes none.
\<close>

definition pool :: "AvgPool2d \<Rightarrow> rat tensor \<Rightarrow> error + rat tensor" where
  "pool st x =
     (case kernel_size st of
        None \<Rightarrow> Inl TypeError
      | Some (K0, K1) \<Rightarrow>
          if int (dimH x) \<le> K0 \<and> int (dimW x) \<le> K1 then Inr (adaptive_avg_pool2d x)
          else
            (case (if fast_imp st then fast_pool st K0 K1 x else integral_pool K0 K1 x) of
               Inl e \<Rightarrow> Inl e
             | Inr out \<Rightarrow> if auto_pad st then auto_pad_out x out else Inr out))"

text \<open>
  \<open>AvgPool2d.forward\<close>: the module after the call, and the returned tensor or the
  exception raised.
\<close>

definition AvgPool2d_forward :: "AvgPool2d \<Rightarrow> rat tensor \<Rightarrow> AvgPool2d \<times> (error + rat tensor)" where
  "AvgPool2d_forward st x =
     (case resolve_kernel st x of
        (st', Some e) \<Rightarrow> (st', Inl e)
      | (st', None) \<Rightarrow> (st', pool st' x))"

text \<open>
  The reference for the exact branch, written from the words of the specification:
  the output position \<open>(i, j)\<close> holds the arithmetic mean of the \<open>k1\<close>-by-\<open>k2\<close> window
  of the input whose top-left corner is \<open>(i, j)\<close>; there is one position for every
  window that fits.
\<close>

definition window_mean_pool :: "nat \<Rightarrow> nat \<Rightarrow> rat tensor \<Rightarrow> rat tensor" where
  "window_mean_pool k1 k2 x =
     build (dimN x) (dimC x) (dimH x + 1 - k1) (dimW x + 1 - k2)
       (\<lambda>n c i j. sum_list (concat (map (\<lambda>row. take k2 (drop j row)) (take k1 (drop i (cells x ! n ! c)))))
                    / of_nat (k1 * k2))"

text \<open>The sum of a channel's elements over the rows \<open>y0..<y1\<close> and columns \<open>x0..<x1\<close>.\<close>

definition rect_sum :: "rat tensor \<Rightarrow> nat \<Rightarrow> nat \<Rightarrow> nat \<Rightarrow> nat \<Rightarrow> nat \<Rightarrow> nat \<Rightarrow> rat" where
  "rect_sum t n c y0 y1 x0 x1 = (\<Sum>y = y0..<y1. \<Sum>x = x0..<x1. cell t n c y x)"

section \<open>replace_layers\<close>

text \<open>
  A model is a tree of modules: every module has a class and its named children, in
  registration order, as \<open>named_children()\<close> yields them. A tree has no module
  registered twice. Three classes matter here: \<open>nn.AdaptiveAvgPool2d\<close> with its
  \<open>output_size\<close> (an int, or a tuple whose entries are ints or \<open>None\<close>), the
  \<open>AvgPool2d\<close> defined above with its attributes, and every other class, named.
\<close>

datatype output_size = OutInt int | OutTuple "int option list"

datatype layer =
    AdaptiveAvgPool2d output_size
  | AvgPool2dLayer AvgPool2d
  | OtherLayer string

datatype module = Module (kind: layer) (named_children: "(string \<times> module) list")

text \<open>\<open>isinstance(m, nn.AdaptiveAvgPool2d)\<close>.\<close>

fun is_adaptive :: "module \<Rightarrow> bool" where
  "is_adaptive (Module (AdaptiveAvgPool2d _) _) = True"
| "is_adaptive (Module _ _) = False"

text \<open>\<open>AvgPool2d(base_size=base_size, fast_imp=fast_imp, train_size=train_size)\<close>, a module without children.\<close>

definition fresh_pool :: "size_arg option \<Rightarrow> int list option \<Rightarrow> bool \<Rightarrow> module" where
  "fresh_pool bs ts fi = Module (AvgPool2dLayer (AvgPool2d_init None bs True fi ts)) []"

text \<open>
  \<open>replace_layers(model, base_size, train_size, fast_imp)\<close> changes the model in place;
  the function returns the model as the call leaves it and the exception, if one was
  raised. \<open>replace_children\<close> is the loop over \<open>model.named_children()\<close>: it first
  descends into a child that has children, then tests the child's class, and
  \<open>assert m.output_size == 1\<close> stops the whole call with what was replaced so far
  left in place. Only the int \<open>1\<close> equals \<open>1\<close>; the tuple \<open>(1, 1)\<close> does not.
\<close>

fun replace_layers :: "size_arg option \<Rightarrow> int list option \<Rightarrow> bool \<Rightarrow> module \<Rightarrow> module \<times> error option"
  and replace_children ::
    "size_arg option \<Rightarrow> int list option \<Rightarrow> bool \<Rightarrow> (string \<times> module) list \<Rightarrow> (string \<times> module) list \<times> error option"
where
  "replace_layers bs ts fi (Module k cs) =
     (case replace_children bs ts fi cs of (cs', e) \<Rightarrow> (Module k cs', e))"
| "replace_children bs ts fi [] = ([], None)"
| "replace_children bs ts fi ((n, m) # rest) =
     (case (if named_children m \<noteq> [] then replace_layers bs ts fi m else (m, None)) of
        (m', Some e) \<Rightarrow> ((n, m') # rest, Some e)
      | (m', None) \<Rightarrow>
          (case kind m of
             AdaptiveAvgPool2d os \<Rightarrow>
               if os = OutInt 1
               then (case replace_children bs ts fi rest of
                       (rest', e) \<Rightarrow> ((n, fresh_pool bs ts fi) # rest', e))
               else ((n, m') # rest, Some AssertionError)
           | _ \<Rightarrow>
               (case replace_children bs ts fi rest of
                  (rest', e) \<Rightarrow> ((n, m') # rest', e))))"

text \<open>The submodules of a model: its children, their children, and so on, in the order of the walk.\<close>

fun submodules :: "module \<Rightarrow> module list" where
  "submodules (Module k cs) = concat (map (\<lambda>(n, m). m # submodules m) cs)"

text \<open>An \<open>nn.AdaptiveAvgPool2d\<close> whose \<open>output_size\<close> is not \<open>1\<close>.\<close>

fun failing :: "module \<Rightarrow> bool" where
  "failing (Module (AdaptiveAvgPool2d os) _) = (os \<noteq> OutInt 1)"
| "failing (Module _ _) = False"

text \<open>
  The reference for the rewrite, written from the words of the specification: every
  child that is an \<open>nn.AdaptiveAvgPool2d\<close> is replaced by a fresh \<open>AvgPool2d\<close>, every
  other child is kept, with the same rewrite applied inside it.
\<close>

fun converted :: "size_arg option \<Rightarrow> int list option \<Rightarrow> bool \<Rightarrow> module \<Rightarrow> module" where
  "converted bs ts fi (Module k cs) =
     Module k (map (\<lambda>(n, m). (n, if is_adaptive m then fresh_pool bs ts fi else converted bs ts fi m)) cs)"

text \<open>What the reference does to one named child.\<close>

definition conv_child :: "size_arg option \<Rightarrow> int list option \<Rightarrow> bool \<Rightarrow> string \<times> module \<Rightarrow> string \<times> module" where
  "conv_child bs ts fi = (\<lambda>(n, m). (n, if is_adaptive m then fresh_pool bs ts fi else converted bs ts fi m))"

text \<open>
  A child that the walk passes without raising: it is no failing module and has no
  failing submodule.
\<close>

definition good_child :: "string \<times> module \<Rightarrow> bool" where
  "good_child p \<longleftrightarrow> \<not> failing (snd p) \<and> (\<forall>m \<in> set (submodules (snd p)). \<not> failing m)"

section \<open>RLFN_Prune: the shapes of the forward pass\<close>

text \<open>
  The values that the network computes depend on learned floating-point parameters;
  its shapes do not. The forward pass is embedded on shapes \<open>(N, C, H, W)\<close>: every
  layer maps the shape of its input to the shape of its output, or raises where the
  tensor library refuses the input. Channel counts, kernel sizes, strides and paddings
  are natural numbers.
\<close>

type_synonym tshape = "nat \<times> nat \<times> nat \<times> nat"

text \<open>
  The layers that the constructors build: \<open>nn.Conv2d\<close> with its input and output
  channels, kernel size, stride, padding and groups; \<open>nn.LeakyReLU\<close>;
  \<open>nn.PixelShuffle\<close> with its upscale factor; \<open>nn.Sequential\<close> with its layers.
\<close>

datatype net_layer =
    Conv2dL nat nat "nat \<times> nat" nat "nat \<times> nat" nat
  | LeakyReLUL
  | PixelShuffleL nat
  | SequentialL "net_layer list"

text \<open>
  \<open>nn.Conv2d(in_channels, out_channels, kernel_size, stride, padding, groups)\<close>: the
  constructor raises \<open>ValueError\<close> unless \<open>groups\<close> is positive and divides both channel
  counts.
\<close>

definition Conv2d_init :: "nat \<Rightarrow> nat \<Rightarrow> nat \<times> nat \<Rightarrow> nat \<Rightarrow> nat \<times> nat \<Rightarrow> nat \<Rightarrow> error + net_layer" where
  "Conv2d_init cin cout k stride padding groups =
     (if groups = 0 \<or> cin mod groups \<noteq> 0 \<or> cout mod groups \<noteq> 0 then Inl ValueError
      else Inr (Conv2dL cin cout k stride padding groups))"

text \<open>
  The output shape of a convolution: the input must have the layer's input channels,
  and the padded input may not be smaller than the kernel; then
  \<open>H_out = (H + 2 * padding - kernel) // stride + 1\<close>.
\<close>

definition conv2d_shape :: "nat \<Rightarrow> nat \<Rightarrow> nat \<times> nat \<Rightarrow> nat \<Rightarrow> nat \<times> nat \<Rightarrow> tshape \<Rightarrow> error + tshape" where
  "conv2d_shape cin cout k stride padding s =
     (case s of (n, c, h, w) \<Rightarrow>
        if c \<noteq> cin \<or> stride = 0 \<or> h + 2 * fst padding < fst k \<or> w + 2 * snd padding < snd k
        then Inl RuntimeError
        else Inr (n, cout, (h + 2 * fst padding - fst k) div stride + 1,
                           (w + 2 * snd padding - snd k) div stride + 1))"

text \<open>
  \<open>nn.PixelShuffle(r)\<close> on shapes: \<open>(N, C * r^2, H, W)\<close> becomes \<open>(N, C, H * r, W * r)\<close>.
\<close>

definition pixel_shuffle_shape :: "nat \<Rightarrow> tshape \<Rightarrow> error + tshape" where
  "pixel_shuffle_shape r s =
     (case s of (n, c, h, w) \<Rightarrow>
        if r = 0 \<or> c mod r ^ 2 \<noteq> 0 then Inl RuntimeError
        else Inr (n, c div r ^ 2, h * r, w * r))"

text \<open>Calling a layer; \<open>nn.Sequential\<close> calls its layers in order.\<close>

fun layer_forward :: "net_layer \<Rightarrow> tshape \<Rightarrow> error + tshape"
  and layers_forward :: "net_layer list \<Rightarrow> tshape \<Rightarrow> error + tshape"
where
  "layer_forward (Conv2dL cin cout k stride padding groups) s = conv2d_shape cin cout k stride padding s"
| "layer_forward LeakyReLUL s = Inr s"
| "layer_forward (PixelShuffleL r) s = pixel_shuffle_shape r s"
| "layer_forward (SequentialL ls) s = layers_forward ls s"
| "layers_forward [] s = Inr s"
| "layers_forward (l # ls) s =
     (case layer_forward l s of Inl e \<Rightarrow> Inl e | Inr s' \<Rightarrow> layers_forward ls s')"




text \<open>The shape of \<open>a + b\<close> and of \<open>a * b\<close>, with broadcasting.\<close>

definition broadcast_shape :: "tshape \<Rightarrow> tshape \<Rightarrow> error + tshape" where
  "broadcast_shape a b =
     (case (a, b) of ((n, c, h, w), (n', c', h', w')) \<Rightarrow>
        (case (bdim n n', bdim c c', bdim h h', bdim w w') of
           (Some n'', Some c'', Some h'', Some w'') \<Rightarrow> Inr (n'', c'', h'', w'')
         | _ \<Rightarrow> Inl RuntimeError))"

text \<open>Sequencing of calls that may raise.\<close>

definition and_then :: "error + 'a \<Rightarrow> ('a \<Rightarrow> error + 'b) \<Rightarrow> error + 'b" where
  "and_then r f = (case r of Inl e \<Rightarrow> Inl e | Inr v \<Rightarrow> f v)"

subsection \<open>The layer constructors of the source\<close>







subsection \<open>ESA\<close>




subsection \<open>RLFB\<close>




subsection \<open>RLFN_Prune\<close>




section \<open>Properties\<close>

subsection \<open>Tensors built from an index function\<close>

lemma dims_build [simp]:
  "dimN (build n c h w f) = n" "dimC (build n c h w f) = c"
  "dimH (build n c h w f) = h" "dimW (build n c h w f) = w"
  by (simp_all add: build_def)

lemma cell_build [simp]:
  "i < n \<Longrightarrow> j < c \<Longrightarrow> y < h \<Longrightarrow> x < w \<Longrightarrow> cell (build n c h w f) i j y x = f i j y x"
  by (simp add: build_def cell_def)

lemma well_shaped_build [simp]: "well_shaped (build n c h w f)"
  by (auto simp: well_shaped_def build_def)

lemma build_cong:
  assumes "\<And>i j y x. i < n \<Longrightarrow> j < c \<Longrightarrow> y < h \<Longrightarrow> x < w \<Longrightarrow> f i j y x = g i j y x"
  shows "build n c h w f = build n c h w g"
  using assms by (simp add: build_def)

lemma well_shaped_lengths:
  assumes "well_shaped t"
  shows "length (cells t) = dimN t"
    and "i < dimN t \<Longrightarrow> length (cells t ! i) = dimC t"
    and "i < dimN t \<Longrightarrow> j < dimC t \<Longrightarrow> length (cells t ! i ! j) = dimH t"
    and "i < dimN t \<Longrightarrow> j < dimC t \<Longrightarrow> y < dimH t \<Longrightarrow> length (cells t ! i ! j ! y) = dimW t"
proof -
  show n: "length (cells t) = dimN t"
    using assms by (simp add: well_shaped_def)
  have batch: "length b = dimC t \<and> (\<forall>p \<in> set b. length p = dimH t \<and> (\<forall>r \<in> set p. length r = dimW t))"
    if "b \<in> set (cells t)" for b
    using assms that by (simp add: well_shaped_def)
  show c: "length (cells t ! i) = dimC t" if "i < dimN t"
    using batch [of "cells t ! i"] that n by simp
  have plane: "length p = dimH t \<and> (\<forall>r \<in> set p. length r = dimW t)"
    if "i < dimN t" "p \<in> set (cells t ! i)" for p
    using batch [of "cells t ! i"] that n by simp
  show h: "length (cells t ! i ! j) = dimH t" if "i < dimN t" "j < dimC t"
    using plane [of "cells t ! i ! j"] that c by simp
  show "length (cells t ! i ! j ! y) = dimW t" if "i < dimN t" "j < dimC t" "y < dimH t"
    using plane [of "cells t ! i ! j"] that c h by simp
qed

lemma well_shaped_eq_build:
  assumes "well_shaped t"
  shows "t = build (dimN t) (dimC t) (dimH t) (dimW t) (cell t)"
proof -
  have "cells t = map (\<lambda>i. map (\<lambda>j. map (\<lambda>y. map (\<lambda>x. cell t i j y x) [0..<dimW t]) [0..<dimH t]) [0..<dimC t]) [0..<dimN t]"
    unfolding cell_def
    by (auto intro!: nth_equalityI simp: well_shaped_lengths [OF assms])
  then show ?thesis
    by (cases t) (simp add: build_def)
qed

lemma tensor_eqI:
  assumes "well_shaped a" "well_shaped b" "shape a = shape b"
    and "\<And>i j y x. i < dimN a \<Longrightarrow> j < dimC a \<Longrightarrow> y < dimH a \<Longrightarrow> x < dimW a \<Longrightarrow> cell a i j y x = cell b i j y x"
  shows "a = b"
proof -
  have "a = build (dimN a) (dimC a) (dimH a) (dimW a) (cell a)"
    using assms(1) by (rule well_shaped_eq_build)
  also have "\<dots> = build (dimN a) (dimC a) (dimH a) (dimW a) (cell b)"
    using assms(4) by (rule build_cong)
  also have "\<dots> = b"
    using well_shaped_eq_build [OF assms(2)] assms(3) by (simp add: shape_def)
  finally show ?thesis .
qed

lemma nth_concat_uniform:
  "\<forall>xs \<in> set xss. length xs = m \<Longrightarrow> k < length xss \<Longrightarrow> c < m \<Longrightarrow> concat xss ! (k * m + c) = xss ! k ! c"
proof (induction xss arbitrary: k)
  case Nil
  then show ?case by simp
next
  case (Cons xs xss)
  show ?case
  proof (cases k)
    case 0
    with Cons.prems show ?thesis by (simp add: nth_append)
  next
    case (Suc k')
    with Cons.prems have "concat xss ! (k' * m + c) = xss ! k' ! c"
      by (intro Cons.IH) auto
    with Suc Cons.prems show ?thesis by (simp add: nth_append)
  qed
qed

lemma length_concat_uniform:
  "\<forall>xs \<in> set xss. length xs = m \<Longrightarrow> length (concat xss) = length xss * m"
  by (induction xss) auto


lemma well_shaped_plane:
  assumes "well_shaped u" "n < dimN u" "c < dimC u"
  shows "cells u ! n ! c = map (\<lambda>y. map (\<lambda>x. cell u n c y x) [0..<dimW u]) [0..<dimH u]"
  unfolding cell_def using assms
  by (auto intro!: nth_equalityI simp: well_shaped_lengths [OF assms(1)])

lemma all_cells_build:
  assumes "v \<in> set (all_cells (build n c h w f))"
  shows "\<exists>i<n. \<exists>j<c. \<exists>y<h. \<exists>x<w. v = f i j y x"
  using assms by (fastforce simp: all_cells_def build_def)

lemma slice_len_mult: "i < r \<Longrightarrow> slice_len i (H * r) r = H"
proof (cases H)
  case 0
  assume "i < r"
  with 0 show ?thesis by (simp add: slice_len_def)
next
  case (Suc H')
  assume i: "i < r"
  define d where "d = r - 1 - i"
  have "i \<le> H * r" using i Suc by (simp add: trans_le_add1 less_imp_le)
  then have eq: "H * r - i + (r - 1) = d + H * r"
    using i by (simp add: d_def)
  have "d < r" using i by (simp add: d_def)
  then have "(d + H * r) div r = H" by simp
  with eq show ?thesis by (simp only: slice_len_def)
qed

lemma nth_nested_range:
  assumes "i < a" "j < b"
  shows "concat (map (\<lambda>i. map (\<lambda>j. f i j) [0..<b]) [0..<a]) ! (i * b + j) = f i j"
proof -
  have "concat (map (\<lambda>i. map (\<lambda>j. f i j) [0..<b]) [0..<a]) ! (i * b + j)
        = map (\<lambda>i. map (\<lambda>j. f i j) [0..<b]) [0..<a] ! i ! j"
    using assms by (intro nth_concat_uniform) auto
  then show ?thesis using assms by simp
qed

lemma length_nested_range:
  "length (concat (map (\<lambda>i. map (\<lambda>j. f i j) [0..<b]) [0..<a])) = a * b"
  using length_concat_uniform [of "map (\<lambda>i. map (\<lambda>j. f i j) [0..<b]) [0..<a]" b] by auto

lemma nth_nested_range_divmod:
  assumes "p < a * b"
  shows "concat (map (\<lambda>i. map (\<lambda>j. f i j) [0..<b]) [0..<a]) ! p = f (p div b) (p mod b)"
proof -
  have b: "0 < b" using assms by (cases b) auto
  have "p div b < a" using assms b by (simp add: less_mult_imp_div_less)
  moreover have "p mod b < b" using b by simp
  ultimately have "concat (map (\<lambda>i. map (\<lambda>j. f i j) [0..<b]) [0..<a]) ! (p div b * b + p mod b) = f (p div b) (p mod b)"
    by (rule nth_nested_range)
  then show ?thesis by simp
qed

lemma cat1_uniform:
  assumes ne: "ts \<noteq> []"
    and ws: "\<And>u. u \<in> set ts \<Longrightarrow> well_shaped u"
    and sh: "\<And>u. u \<in> set ts \<Longrightarrow> shape u = (N, C, H, W)"
  shows "cat1 ts = Inr (build N (length ts * C) H W (\<lambda>n q y x. cell (ts ! (q div C)) n (q mod C) y x))"
proof -
  obtain t rest where ts: "ts = t # rest" using ne by (cases ts) auto
  have dims: "dimN u = N" "dimC u = C" "dimH u = H" "dimW u = W" if "u \<in> set ts" for u
    using sh [OF that] by (simp_all add: shape_def)
  have sumC: "sum_list (map dimC ts) = length ts * C"
    using dims(2) by (induction ts) auto
  have row: "concat (map (\<lambda>u. cells u ! n) ts)
             = map (\<lambda>q. map (\<lambda>y. map (\<lambda>x. cell (ts ! (q div C)) n (q mod C) y x) [0..<W]) [0..<H]) [0..<length ts * C]"
    if n: "n < N" for n
  proof (rule nth_equalityI)
    have len: "\<forall>xs \<in> set (map (\<lambda>u. cells u ! n) ts). length xs = C"
      using n dims ws by (auto simp: well_shaped_lengths)
    show "length (concat (map (\<lambda>u. cells u ! n) ts)) = length (map (\<lambda>q. map (\<lambda>y. map (\<lambda>x. cell (ts ! (q div C)) n (q mod C) y x) [0..<W]) [0..<H]) [0..<length ts * C])"
      using length_concat_uniform [OF len] by simp
    fix q assume "q < length (concat (map (\<lambda>u. cells u ! n) ts))"
    then have q: "q < length ts * C"
      using length_concat_uniform [OF len] by simp
    then have C: "0 < C" by (cases C) auto
    have k: "q div C < length ts" using q C by (simp add: less_mult_imp_div_less)
    have m: "q mod C < C" using C by simp
    have mem: "ts ! (q div C) \<in> set ts" using k by simp
    have "concat (map (\<lambda>u. cells u ! n) ts) ! (q div C * C + q mod C) = map (\<lambda>u. cells u ! n) ts ! (q div C) ! (q mod C)"
      using len k m by (intro nth_concat_uniform) auto
    then have "concat (map (\<lambda>u. cells u ! n) ts) ! q = cells (ts ! (q div C)) ! n ! (q mod C)"
      using k by simp
    also have "\<dots> = map (\<lambda>y. map (\<lambda>x. cell (ts ! (q div C)) n (q mod C) y x) [0..<W]) [0..<H]"
      using well_shaped_plane [OF ws [OF mem], of n "q mod C"] dims [OF mem] n m by simp
    finally show "concat (map (\<lambda>u. cells u ! n) ts) ! q = map (\<lambda>q. map (\<lambda>y. map (\<lambda>x. cell (ts ! (q div C)) n (q mod C) y x) [0..<W]) [0..<H]) [0..<length ts * C] ! q"
      using q by simp
  qed
  have "cat1 ts = Inr (Tensor N (length ts * C) H W (map (\<lambda>n. concat (map (\<lambda>u. cells u ! n) ts)) [0..<N]))"
    using dims sumC unfolding cat1_def ts by (auto simp del: sum_list.Cons)
  also have "map (\<lambda>n. concat (map (\<lambda>u. cells u ! n) ts)) [0..<N]
      = map (\<lambda>n. map (\<lambda>q. map (\<lambda>y. map (\<lambda>x. cell (ts ! (q div C)) n (q mod C) y x) [0..<W]) [0..<H]) [0..<length ts * C]) [0..<N]"
    using row by simp
  finally show ?thesis by (simp add: build_def)
qed


subsection \<open>UnPixelShuffle\<close>

lemma radix_bound:
  fixes m :: nat
  assumes "c < C" "k < m"
  shows "c * m + k < C * m"
proof -
  have "c * m + k < Suc c * m" using assms(2) by simp
  also have "\<dots> \<le> C * m" using assms(1) by (intro mult_le_mono1) simp
  finally show ?thesis .
qed

lemma radix_div_mod:
  fixes m :: nat
  assumes "k < m"
  shows "(c * m + k) div m = c" and "(c * m + k) mod m = k"
  using assms by simp_all

lemma channel_split:
  fixes r :: nat
  assumes "i < r" "j < r"
  shows "i * r + j < r ^ 2"
    and "(c * r ^ 2 + (i * r + j)) div r ^ 2 = c"
    and "((c * r ^ 2 + (i * r + j)) mod r ^ 2) div r = i"
    and "(c * r ^ 2 + (i * r + j)) mod r = j"
proof -
  show small: "i * r + j < r ^ 2"
    using radix_bound [OF assms] by (simp add: power2_eq_square)
  show "(c * r ^ 2 + (i * r + j)) div r ^ 2 = c"
    using small by (rule radix_div_mod)
  have "(c * r ^ 2 + (i * r + j)) mod r ^ 2 = i * r + j"
    using small by (rule radix_div_mod)
  then show "((c * r ^ 2 + (i * r + j)) mod r ^ 2) div r = i"
    using radix_div_mod(1) [OF assms(2), of i] by simp
  have "c * r ^ 2 + (i * r + j) = (c * r + i) * r + j"
    by (simp add: power2_eq_square algebra_simps)
  then show "(c * r ^ 2 + (i * r + j)) mod r = j"
    using radix_div_mod(2) [OF assms(2), of "c * r + i"] by (simp only:)
qed

lemma strided_unit:
  assumes "i < r" "j < r" "dimH x = H * r" "dimW x = W * r"
  shows "shape (strided i r j r x) = (dimN x, dimC x, H, W)"
  using assms by (simp add: shape_def strided_def slice_len_mult)

lemma UnPixelShuffle_forward_eq:
  assumes r: "1 \<le> downscale_factor"
    and H: "dimH x = H * nat downscale_factor"
    and W: "dimW x = W * nat downscale_factor"
  shows "UnPixelShuffle_forward downscale_factor x =
           Inr (build (dimN x) (dimC x * (nat downscale_factor) ^ 2) H W
                  (\<lambda>n q y x'. cell x n (q div (nat downscale_factor) ^ 2)
                       (y * nat downscale_factor + (q mod (nat downscale_factor) ^ 2) div nat downscale_factor)
                       (x' * nat downscale_factor + q mod nat downscale_factor)))"
proof -
  define r where "r = nat downscale_factor"
  have r0: "0 < r" using r by (simp add: r_def)
  define N C where "N = dimN x" and "C = dimC x"
  define chunk_list where "chunk_list = concat (map (\<lambda>i. map (\<lambda>j. strided i r j r x) [0..<r]) [0..<r])"
  define index where "index = concat (map (\<lambda>i. map (\<lambda>j. i + j * C) [0..<r ^ 2]) [0..<C])"
  have len_chunks: "length chunk_list = r * r"
    by (simp add: chunk_list_def length_nested_range)
  have chunk_nth: "chunk_list ! k = strided (k div r) r (k mod r) r x" if "k < r * r" for k
    unfolding chunk_list_def using that by (rule nth_nested_range_divmod)
  have chunk_mem: "\<exists>i<r. \<exists>j<r. u = strided i r j r x" if "u \<in> set chunk_list" for u
    using that by (fastforce simp: chunk_list_def)
  have ne: "chunk_list \<noteq> []"
    using len_chunks r0 by (cases chunk_list) auto
  have ws: "well_shaped u" if "u \<in> set chunk_list" for u
    using chunk_mem [OF that] by (auto simp: strided_def)
  have sh: "shape u = (N, C, H, W)" if "u \<in> set chunk_list" for u
    using chunk_mem [OF that] H W by (auto simp: strided_unit r_def N_def C_def)
  define y where "y = build N (r * r * C) H W (\<lambda>n q y x. cell (chunk_list ! (q div C)) n (q mod C) y x)"
  have cat: "cat1 chunk_list = Inr y"
    using cat1_uniform [OF ne ws sh] by (simp add: y_def len_chunks)
  have len_index: "length index = C * r ^ 2"
    by (simp add: index_def length_nested_range)
  have index_nth: "index ! p = p div r ^ 2 + (p mod r ^ 2) * C" if "p < C * r ^ 2" for p
    unfolding index_def using that by (rule nth_nested_range_divmod)
  have index_bound: "index ! p < r * r * C" if p: "p < C * r ^ 2" for p
  proof -
    have "p div r ^ 2 < C" using p r0 by (simp add: less_mult_imp_div_less)
    moreover have "p mod r ^ 2 < r ^ 2" using r0 by simp
    then have "(p mod r ^ 2) * C + C \<le> r ^ 2 * C"
      by (metis Suc_leI mult_Suc mult_le_mono1 add.commute)
    ultimately show ?thesis
      using index_nth [OF p] by (simp add: power2_eq_square)
  qed
  have Hdiv: "H * r div r = H" and Wdiv: "W * r div r = W" using r0 by simp_all
  have check: "\<forall>v \<in> set (all_cells (index_tensor index N H W)). v < dimC y"
  proof
    fix v assume "v \<in> set (all_cells (index_tensor index N H W))"
    then obtain p where "p < length index" "v = index ! p"
      unfolding index_tensor_def by (blast dest: all_cells_build)
    then show "v < dimC y"
      using index_bound len_index by (simp add: y_def)
  qed
  have gather: "gather1 y (index_tensor index N H W)
      = Inr (build N (C * r ^ 2) H W (\<lambda>n p y' x'. cell y n (cell (index_tensor index N H W) n p y' x') y' x'))"
    using check by (simp add: gather1_def index_tensor_def len_index y_def)
  have cellwise: "cell y n (cell (index_tensor index N H W) n p y' x') y' x'
      = cell x n (p div r ^ 2) (y' * r + (p mod r ^ 2) div r) (x' * r + p mod r)"
    if "n < N" "p < C * r ^ 2" "y' < H" "x' < W" for n p y' x'
  proof -
    define c k where "c = p div r ^ 2" and "k = p mod r ^ 2"
    have c: "c < C" using that(2) r0 by (simp add: c_def less_mult_imp_div_less)
    have k: "k < r * r" using r0 by (simp add: k_def power2_eq_square)
    have idx: "cell (index_tensor index N H W) n p y' x' = c + k * C"
      using that index_nth by (simp add: index_tensor_def len_index c_def k_def)
    have kdiv: "(c + k * C) div C = k" and kmod: "(c + k * C) mod C = c"
      using c by simp_all
    have "cell y n (c + k * C) y' x' = cell (chunk_list ! k) n c y' x'"
    proof -
      have "c + k * C < r * r * C"
        using index_bound [OF that(2)] index_nth [OF that(2)] by (simp add: c_def k_def)
      then show ?thesis
        using that kdiv kmod by (simp add: y_def)
    qed
    also have "\<dots> = cell (strided (k div r) r (k mod r) r x) n c y' x'"
      using chunk_nth [OF k] by simp
    also have "\<dots> = cell x n c (k div r + y' * r) (k mod r + x' * r)"
    proof -
      have "k div r < r" using k r0 by (simp add: less_mult_imp_div_less)
      moreover have "k mod r < r" using r0 by simp
      ultimately show ?thesis
        using that c H W
        by (simp add: strided_def slice_len_mult r_def [symmetric] N_def C_def)
    qed
    also have "k mod r = p mod r"
      by (simp add: k_def power2_eq_square mod_mult_eq mod_mod_cancel)
    finally show ?thesis
      using idx by (simp add: c_def k_def add.commute)
  qed
  have "UnPixelShuffle_forward downscale_factor x = gather1 y (index_tensor index N H W)"
    using cat H W Hdiv Wdiv
    by (simp add: UnPixelShuffle_forward_def Let_def r_def [symmetric] N_def [symmetric]
        C_def [symmetric] chunk_list_def [symmetric] index_def [symmetric])
  also have "\<dots> = Inr (build N (C * r ^ 2) H W
      (\<lambda>n q y x'. cell x n (q div r ^ 2) (y * r + (q mod r ^ 2) div r) (x' * r + q mod r)))"
    unfolding gather using cellwise by (auto intro: build_cong)
  finally show ?thesis
    by (simp add: r_def N_def C_def)
qed


lemma PixelShuffle_after_UnPixelShuffle:
  assumes r: "1 \<le> r" and ws: "well_shaped x"
    and H: "dimH x = H * nat r" and W: "dimW x = W * nat r"
  shows "\<exists>y. UnPixelShuffle_forward r x = Inr y \<and> PixelShuffle_forward r y = Inr x"
proof -
  define d where "d = nat r"
  have d0: "0 < d" using r by (simp add: d_def)
  define y where "y = build (dimN x) (dimC x * d ^ 2) H W
      (\<lambda>n q y x'. cell x n (q div d ^ 2) (y * d + (q mod d ^ 2) div d) (x' * d + q mod d))"
  have un: "UnPixelShuffle_forward r x = Inr y"
    using UnPixelShuffle_forward_eq [OF r H W] by (simp add: y_def d_def)
  define z where "z = build (dimN x) (dimC x) (H * d) (W * d)
      (\<lambda>n c a b. cell y n (c * d ^ 2 + (a mod d) * d + b mod d) (a div d) (b div d))"
  have sh: "PixelShuffle_forward r y = Inr z"
    using r d0 by (simp add: PixelShuffle_forward_def Let_def d_def [symmetric] y_def z_def)
  have "z = x"
  proof (rule tensor_eqI)
    show "well_shaped z" by (simp add: z_def)
    show "well_shaped x" by (rule ws)
    show "shape z = shape x" using H W by (simp add: z_def shape_def d_def)
    fix n c a b
    assume "n < dimN z" "c < dimC z" "a < dimH z" "b < dimW z"
    then have in_range: "n < dimN x" "c < dimC x" "a < H * d" "b < W * d"
      by (simp_all add: z_def)
    have ad: "a div d < H" and bd: "b div d < W"
      using in_range d0 by (simp_all add: less_mult_imp_div_less)
    have am: "a mod d < d" and bm: "b mod d < d" using d0 by simp_all
    define Q where "Q = c * d ^ 2 + (a mod d * d + b mod d)"
    have q: "Q < dimC x * d ^ 2"
      unfolding Q_def using in_range(2) channel_split(1) [OF am bm] by (rule radix_bound)
    have Q: "Q div d ^ 2 = c" "(Q mod d ^ 2) div d = a mod d" "Q mod d = b mod d"
      unfolding Q_def by (rule channel_split [OF am bm])+
    have "cell z n c a b = cell y n Q (a div d) (b div d)"
      using in_range by (simp add: z_def Q_def add.assoc)
    also have "\<dots> = cell x n c (a div d * d + a mod d) (b div d * d + b mod d)"
      using in_range(1) q ad bd by (simp add: y_def Q)
    finally show "cell z n c a b = cell x n c a b" by simp
  qed
  with un sh show ?thesis by simp
qed

lemma UnPixelShuffle_after_PixelShuffle:
  assumes r: "1 \<le> r" and ws: "well_shaped z" and C: "dimC z = C * (nat r) ^ 2"
  shows "\<exists>x. PixelShuffle_forward r z = Inr x \<and> UnPixelShuffle_forward r x = Inr z"
proof -
  define d where "d = nat r"
  have d0: "0 < d" using r by (simp add: d_def)
  define x where "x = build (dimN z) C (dimH z * d) (dimW z * d)
      (\<lambda>n c a b. cell z n (c * d ^ 2 + (a mod d) * d + b mod d) (a div d) (b div d))"
  have sh: "PixelShuffle_forward r z = Inr x"
    using r d0 C by (simp add: PixelShuffle_forward_def Let_def d_def [symmetric] x_def)
  define y where "y = build (dimN z) (C * d ^ 2) (dimH z) (dimW z)
      (\<lambda>n q y x'. cell x n (q div d ^ 2) (y * d + (q mod d ^ 2) div d) (x' * d + q mod d))"
  have un: "UnPixelShuffle_forward r x = Inr y"
    using UnPixelShuffle_forward_eq [OF r, of x "dimH z" "dimW z"]
    by (simp add: y_def d_def x_def)
  have "y = z"
  proof (rule tensor_eqI)
    show "well_shaped y" by (simp add: y_def)
    show "well_shaped z" by (rule ws)
    show "shape y = shape z" using C by (simp add: y_def shape_def d_def)
    fix n q a b
    assume "n < dimN y" "q < dimC y" "a < dimH y" "b < dimW y"
    then have in_range: "n < dimN z" "q < C * d ^ 2" "a < dimH z" "b < dimW z"
      by (simp_all add: y_def)
    define c i j where "c = q div d ^ 2" and "i = (q mod d ^ 2) div d" and "j = q mod d"
    have c: "c < C" using in_range(2) d0 by (simp add: c_def less_mult_imp_div_less)
    have i: "i < d"
      using d0 by (simp add: i_def less_mult_imp_div_less power2_eq_square)
    have j: "j < d" using d0 by (simp add: j_def)
    have "(q mod d ^ 2) mod d = q mod d"
      by (simp add: power2_eq_square mod_mult_eq mod_mod_cancel)
    then have "i * d + j = q mod d ^ 2"
      unfolding i_def j_def by (metis div_mult_mod_eq)
    then have q: "c * d ^ 2 + (i * d + j) = q"
      using div_mult_mod_eq [of q "d ^ 2"] by (simp only: c_def)
    have pos: "a * d + i < dimH z * d" "b * d + j < dimW z * d"
      using in_range(3,4) i j by (simp_all add: radix_bound)
    have "cell y n q a b = cell x n c (a * d + i) (b * d + j)"
      using in_range by (simp add: y_def c_def i_def j_def)
    also have "\<dots> = cell z n (c * d ^ 2 + (i * d + j)) a b"
      using in_range(1) c pos i j by (simp add: x_def add.assoc)
    finally show "cell y n q a b = cell z n q a b" by (simp add: q)
  qed
  with un sh show ?thesis by simp
qed


text \<open>
  Claim C4. For a downscale factor \<open>r \<ge> 1\<close> and an input of shape
  \<open>(N, C, H*r, W*r)\<close>, \<open>UnPixelShuffle(r).forward\<close> returns a tensor of shape
  \<open>(N, C*r^2, H, W)\<close> whose channel \<open>c*r^2 + (i*r + j)\<close> holds at \<open>(y, x)\<close> the input's
  channel \<open>c\<close> at \<open>(y*r + i, x*r + j)\<close>; and every element of the input is found in
  the output, at channel \<open>c*r^2 + (a mod r)*r + b mod r\<close>, position
  \<open>(a div r, b div r)\<close>.
\<close>

theorem UnPixelShuffle_rearranges:
  assumes "1 \<le> r" and "shape x = (N, C, H * nat r, W * nat r)"
  shows "\<exists>out. UnPixelShuffle_forward r x = Inr out \<and> well_shaped out
           \<and> shape out = (N, C * (nat r) ^ 2, H, W)
           \<and> (\<forall>n<N. \<forall>c<C. \<forall>i<nat r. \<forall>j<nat r. \<forall>y<H. \<forall>x'<W.
                 cell out n (c * (nat r) ^ 2 + (i * nat r + j)) y x' = cell x n c (y * nat r + i) (x' * nat r + j))
           \<and> (\<forall>n<N. \<forall>c<C. \<forall>a<H * nat r. \<forall>b<W * nat r.
                 cell x n c a b
                   = cell out n (c * (nat r) ^ 2 + (a mod nat r * nat r + b mod nat r)) (a div nat r) (b div nat r))"
proof -
  define d where "d = nat r"
  have d0: "0 < d" using assms(1) by (simp add: d_def)
  have dims: "dimN x = N" "dimC x = C" "dimH x = H * d" "dimW x = W * d"
    using assms(2) by (simp_all add: shape_def d_def)
  define out where "out = build N (C * d ^ 2) H W
      (\<lambda>n q y x'. cell x n (q div d ^ 2) (y * d + (q mod d ^ 2) div d) (x' * d + q mod d))"
  have run: "UnPixelShuffle_forward r x = Inr out"
    using UnPixelShuffle_forward_eq [OF assms(1), of x H W] dims by (simp add: out_def d_def)
  have fwd: "cell out n (c * d ^ 2 + (i * d + j)) y x' = cell x n c (y * d + i) (x' * d + j)"
    if "n < N" "c < C" "i < d" "j < d" "y < H" "x' < W" for n c i j y x'
  proof -
    have "c * d ^ 2 + (i * d + j) < C * d ^ 2"
      using that(2) channel_split(1) [OF that(3,4)] by (rule radix_bound)
    then show ?thesis
      using that by (simp add: out_def channel_split)
  qed
  have bwd: "cell x n c a b = cell out n (c * d ^ 2 + (a mod d * d + b mod d)) (a div d) (b div d)"
    if "n < N" "c < C" "a < H * d" "b < W * d" for n c a b
  proof -
    have "a div d < H" "b div d < W"
      using that d0 by (simp_all add: less_mult_imp_div_less)
    moreover have "a mod d < d" "b mod d < d" using d0 by simp_all
    ultimately have "cell out n (c * d ^ 2 + (a mod d * d + b mod d)) (a div d) (b div d)
        = cell x n c (a div d * d + a mod d) (b div d * d + b mod d)"
      using that(1,2) by (intro fwd)
    then show ?thesis by simp
  qed
  have "well_shaped out" "shape out = (N, C * d ^ 2, H, W)"
    by (simp_all add: out_def shape_def)
  with run fwd bwd show ?thesis
    unfolding d_def [symmetric] by blast
qed

theorem UnPixelShuffle_rearranges_witness:
  "\<exists>out. UnPixelShuffle_forward 2 (Tensor 1 1 2 2 [[[[1, 2], [3, 4::rat]]]]) = Inr out
      \<and> shape out = (1, 4, 1, 1) \<and> cell out 0 3 0 0 = 4"
proof -
  let ?x = "Tensor 1 1 2 2 [[[[1, 2], [3, 4::rat]]]]"
  have "shape ?x = (1, 1, 1 * nat 2, 1 * nat 2)" by (simp add: shape_def)
  from UnPixelShuffle_rearranges [of 2 ?x 1 1 1 1, OF _ this]
  obtain out where out: "UnPixelShuffle_forward 2 ?x = Inr out" "shape out = (1, 1 * (nat 2) ^ 2, 1, 1)"
    and *: "\<forall>n<1. \<forall>c<1. \<forall>i<nat 2. \<forall>j<nat 2. \<forall>y<1. \<forall>x'<1.
                 cell out n (c * (nat 2) ^ 2 + (i * nat 2 + j)) y x' = cell ?x n c (y * nat 2 + i) (x' * nat 2 + j)"
    by auto
  have "cell out 0 3 0 0 = 4"
    using * [rule_format, of 0 0 1 1 0 0] by (simp add: cell_def)
  with out show ?thesis by simp
qed

text \<open>
  Claim C5. For a factor \<open>r \<ge> 1\<close>, \<open>UnPixelShuffle(r).forward\<close> followed by the pixel
  shuffle with upscale factor \<open>r\<close> returns the original tensor of shape
  \<open>(N, C, H*r, W*r)\<close>; and the pixel shuffle followed by \<open>UnPixelShuffle(r).forward\<close>
  returns the original tensor of shape \<open>(N, C*r^2, H, W)\<close>: the two rearrangements
  are inverse to each other.
\<close>

theorem UnPixelShuffle_PixelShuffle_inverse:
  assumes "1 \<le> r"
  shows "(well_shaped x \<and> dimH x = H * nat r \<and> dimW x = W * nat r \<longrightarrow>
            (\<exists>y. UnPixelShuffle_forward r x = Inr y \<and> PixelShuffle_forward r y = Inr x))
       \<and> (well_shaped z \<and> dimC z = C * (nat r) ^ 2 \<longrightarrow>
            (\<exists>y. PixelShuffle_forward r z = Inr y \<and> UnPixelShuffle_forward r y = Inr z))"
  using PixelShuffle_after_UnPixelShuffle [OF assms, of x H W]
    UnPixelShuffle_after_PixelShuffle [OF assms, of z C]
  by blast

theorem UnPixelShuffle_PixelShuffle_inverse_witness:
  "(\<exists>y. UnPixelShuffle_forward 2 (Tensor 1 1 2 2 [[[[1, 2], [3, 4::rat]]]]) = Inr y
        \<and> PixelShuffle_forward 2 y = Inr (Tensor 1 1 2 2 [[[[1, 2], [3, 4]]]]))
   \<and> (\<exists>y. PixelShuffle_forward 2 (Tensor 1 4 1 1 [[[[1]], [[2]], [[3]], [[4::rat]]]]) = Inr y
        \<and> UnPixelShuffle_forward 2 y = Inr (Tensor 1 4 1 1 [[[[1]], [[2]], [[3]], [[4]]]]))"
  using UnPixelShuffle_PixelShuffle_inverse
          [of 2 "Tensor 1 1 2 2 [[[[1, 2], [3, 4::rat]]]]" 1 1
              "Tensor 1 4 1 1 [[[[1]], [[2]], [[3]], [[4::rat]]]]" 1]
  by (simp add: well_shaped_def)

subsection \<open>AvgPool2d: the integral image\<close>

lemma sum_list_upt: "sum_list (map f [0..<k]) = sum f {0..<k}"
  by (simp add: interv_sum_list_conv_sum_set_nat)

lemma cell_cumsum_w:
  assumes "n < dimN t" "c < dimC t" "y < dimH t" "x < dimW t"
  shows "cell (cumsum_w t) n c y x = (\<Sum>x' = 0..<Suc x. cell t n c y x')"
  using assms by (simp add: cumsum_w_def sum_list_upt del: upt_Suc)

lemma cell_cumsum_h:
  assumes "n < dimN t" "c < dimC t" "y < dimH t" "x < dimW t"
  shows "cell (cumsum_h t) n c y x = (\<Sum>y' = 0..<Suc y. cell t n c y' x)"
  using assms by (simp add: cumsum_h_def sum_list_upt del: upt_Suc)

lemma cell_double_cumsum:
  assumes "n < dimN t" "c < dimC t" "y < dimH t" "x < dimW t"
  shows "cell (cumsum_h (cumsum_w t)) n c y x = rect_sum t n c 0 (Suc y) 0 (Suc x)"
proof -
  have "cell (cumsum_h (cumsum_w t)) n c y x = (\<Sum>y' = 0..<Suc y. cell (cumsum_w t) n c y' x)"
    using assms by (intro cell_cumsum_h) (simp_all add: cumsum_w_def)
  also have "\<dots> = (\<Sum>y' = 0..<Suc y. \<Sum>x' = 0..<Suc x. cell t n c y' x')"
    using assms by (intro sum.cong refl cell_cumsum_w) auto
  finally show ?thesis by (simp add: rect_sum_def)
qed

lemma cell_integral_image:
  assumes "n < dimN t" "c < dimC t" "y \<le> dimH t" "x \<le> dimW t"
  shows "cell (pad_constant 1 0 1 0 (cumsum_h (cumsum_w t))) n c y x = rect_sum t n c 0 y 0 x"
proof (cases "y = 0 \<or> x = 0")
  case True
  then show ?thesis
    using assms by (auto simp: pad_constant_def cumsum_h_def cumsum_w_def rect_sum_def)
next
  case False
  then obtain y' x' where yx: "y = Suc y'" "x = Suc x'"
    by (cases y; cases x) auto
  have "cell (pad_constant 1 0 1 0 (cumsum_h (cumsum_w t))) n c y x = cell (cumsum_h (cumsum_w t)) n c y' x'"
    using assms yx by (simp add: pad_constant_def cumsum_h_def cumsum_w_def)
  also have "\<dots> = rect_sum t n c 0 y 0 x"
    using assms yx by (simp add: cell_double_cumsum)
  finally show ?thesis .
qed

lemma shape_integral_image:
  "shape (pad_constant 1 0 1 0 (cumsum_h (cumsum_w t))) = (dimN t, dimC t, Suc (dimH t), Suc (dimW t))"
  by (simp add: shape_def pad_constant_def cumsum_h_def cumsum_w_def)

lemma rect_sum_corners:
  "rect_sum t n c 0 (i + k1) 0 (j + k2) + rect_sum t n c 0 i 0 j
     - rect_sum t n c 0 i 0 (j + k2) - rect_sum t n c 0 (i + k1) 0 j
   = rect_sum t n c i (i + k1) j (j + k2)"
proof -
  define X where "X = cell t n c"
  have cols: "(\<Sum>x = 0..<j + k2. X y x) - (\<Sum>x = 0..<j. X y x) = (\<Sum>x = j..<j + k2. X y x)" for y
    by (rule sum_diff_nat_ivl) simp_all
  have rows: "(\<Sum>y = 0..<i + k1. g y) - (\<Sum>y = 0..<i. g y) = (\<Sum>y = i..<i + k1. g y)" for g :: "nat \<Rightarrow> rat"
    by (rule sum_diff_nat_ivl) simp_all
  have "rect_sum t n c 0 (i + k1) 0 (j + k2) + rect_sum t n c 0 i 0 j
          - rect_sum t n c 0 i 0 (j + k2) - rect_sum t n c 0 (i + k1) 0 j
        = ((\<Sum>y = 0..<i + k1. \<Sum>x = 0..<j + k2. X y x) - (\<Sum>y = 0..<i. \<Sum>x = 0..<j + k2. X y x))
          - ((\<Sum>y = 0..<i + k1. \<Sum>x = 0..<j. X y x) - (\<Sum>y = 0..<i. \<Sum>x = 0..<j. X y x))"
    by (simp add: rect_sum_def X_def)
  also have "\<dots> = (\<Sum>y = i..<i + k1. \<Sum>x = 0..<j + k2. X y x) - (\<Sum>y = i..<i + k1. \<Sum>x = 0..<j. X y x)"
    by (simp only: rows)
  also have "\<dots> = (\<Sum>y = i..<i + k1. (\<Sum>x = 0..<j + k2. X y x) - (\<Sum>x = 0..<j. X y x))"
    by (simp add: sum_subtractf)
  also have "\<dots> = (\<Sum>y = i..<i + k1. \<Sum>x = j..<j + k2. X y x)"
    by (simp only: cols)
  finally show ?thesis by (simp add: rect_sum_def X_def)
qed


lemma slice_bounds_window:
  assumes "1 \<le> k" "k \<le> int L"
  shows "slice_stop (Some (- k)) (Suc L) = Suc L - nat k"
    and "slice_start (Some k) (Suc L) = nat k"
    and "slice_start None (Suc L) = 0"
    and "slice_stop None (Suc L) = Suc L"
  using assms by (auto simp: slice_stop_def slice_start_def slice_bound_def)

lemma pointwise_same_shape:
  assumes "shape a = shape b"
  shows "pointwise f a b = Inr (build (dimN a) (dimC a) (dimH a) (dimW a)
           (\<lambda>n c y x. f (cell a n c y x) (cell b n c y x)))"
proof -
  have dims: "dimN b = dimN a" "dimC b = dimC a" "dimH b = dimH a" "dimW b = dimW a"
    using assms by (simp_all add: shape_def)
  have "build (dimN a) (dimC a) (dimH a) (dimW a)
          (\<lambda>i j y x. f (cell a (bidx (dimN a) i) (bidx (dimC a) j) (bidx (dimH a) y) (bidx (dimW a) x))
                       (cell b (bidx (dimN a) i) (bidx (dimC a) j) (bidx (dimH a) y) (bidx (dimW a) x)))
        = build (dimN a) (dimC a) (dimH a) (dimW a) (\<lambda>n c y x. f (cell a n c y x) (cell b n c y x))"
    by (rule build_cong) (auto simp: bidx_def)
  then show ?thesis
    by (simp add: pointwise_def bdim_def dims)
qed

lemma integral_pool_eq:
  assumes k1: "1 \<le> min (int (dimH x)) K0" and k2: "1 \<le> min (int (dimW x)) K1"
  shows "integral_pool K0 K1 x =
           Inr (build (dimN x) (dimC x)
                  (Suc (dimH x) - nat (min (int (dimH x)) K0)) (Suc (dimW x) - nat (min (int (dimW x)) K1))
                  (\<lambda>n c i j. rect_sum x n c i (i + nat (min (int (dimH x)) K0)) j (j + nat (min (int (dimW x)) K1))
                               / of_int (min (int (dimH x)) K0 * min (int (dimW x)) K1)))"
proof -
  define h w where "h = dimH x" and "w = dimW x"
  define k1 k2 where "k1 = min (int h) K0" and "k2 = min (int w) K1"
  define m1 m2 where "m1 = nat k1" and "m2 = nat k2"
  define s where "s = pad_constant 1 0 1 0 (cumsum_h (cumsum_w x))"
  have kb: "1 \<le> k1" "k1 \<le> int h" "1 \<le> k2" "k2 \<le> int w"
    using k1 k2 by (simp_all add: k1_def k2_def h_def w_def)
  have mb: "1 \<le> m1" "m1 \<le> h" "1 \<le> m2" "m2 \<le> w"
    using kb by (simp_all add: m1_def m2_def)
  have sh: "dimN s = dimN x" "dimC s = dimC x" "dimH s = Suc h" "dimW s = Suc w"
    using shape_integral_image [of x] by (simp_all add: shape_def s_def h_def w_def)
  have s_cell: "cell s n c y x' = rect_sum x n c 0 y 0 x'"
    if "n < dimN x" "c < dimC x" "y \<le> h" "x' \<le> w" for n c y x'
    unfolding s_def using that by (intro cell_integral_image) (simp_all add: h_def w_def)
  define s1 s2 s3 s4 where
    "s1 = basic_slice (None, Some (- k1)) (None, Some (- k2)) s" and
    "s2 = basic_slice (None, Some (- k1)) (Some k2, None) s" and
    "s3 = basic_slice (Some k1, None) (None, Some (- k2)) s" and
    "s4 = basic_slice (Some k1, None) (Some k2, None) s"
  note sb = slice_bounds_window [OF kb(1,2)] slice_bounds_window [OF kb(3,4)]
  have s1: "s1 = build (dimN x) (dimC x) (Suc h - m1) (Suc w - m2) (\<lambda>n c y x'. cell s n c y x')"
    by (simp add: s1_def basic_slice_def Let_def sh sb m1_def m2_def)
  have s2: "s2 = build (dimN x) (dimC x) (Suc h - m1) (Suc w - m2) (\<lambda>n c y x'. cell s n c y (m2 + x'))"
    by (simp add: s2_def basic_slice_def Let_def sh sb m1_def m2_def)
  have s3: "s3 = build (dimN x) (dimC x) (Suc h - m1) (Suc w - m2) (\<lambda>n c y x'. cell s n c (m1 + y) x')"
    by (simp add: s3_def basic_slice_def Let_def sh sb m1_def m2_def)
  have s4: "s4 = build (dimN x) (dimC x) (Suc h - m1) (Suc w - m2) (\<lambda>n c y x'. cell s n c (m1 + y) (m2 + x'))"
    by (simp add: s4_def basic_slice_def Let_def sh sb m1_def m2_def)
  define a where "a = build (dimN x) (dimC x) (Suc h - m1) (Suc w - m2)
     (\<lambda>n c y x'. cell s4 n c y x' + cell s1 n c y x')"
  have pa: "pointwise (+) s4 s1 = Inr a"
    using pointwise_same_shape [of s4 s1 "(+)"] by (simp add: a_def s1 s4 shape_def)
  define b where "b = build (dimN x) (dimC x) (Suc h - m1) (Suc w - m2)
     (\<lambda>n c y x'. cell a n c y x' - cell s2 n c y x')"
  have pb: "pointwise (-) a s2 = Inr b"
    using pointwise_same_shape [of a s2 "(-)"] by (simp add: a_def b_def s2 shape_def)
  define out where "out = build (dimN x) (dimC x) (Suc h - m1) (Suc w - m2)
     (\<lambda>n c y x'. cell b n c y x' - cell s3 n c y x')"
  have pc: "pointwise (-) b s3 = Inr out"
    using pointwise_same_shape [of b s3 "(-)"] by (simp add: b_def out_def s3 shape_def)
  have run: "integral_pool K0 K1 x = Inr (div_scalar out (k1 * k2))"
    using pa pb pc
    unfolding integral_pool_def Let_def s1_def s2_def s3_def s4_def s_def k1_def k2_def h_def w_def
    by simp
  have cellwise: "cell out n c i j = rect_sum x n c i (i + m1) j (j + m2)"
    if r: "n < dimN x" "c < dimC x" "i < Suc h - m1" "j < Suc w - m2" for n c i j
  proof -
    have ij: "i + m1 \<le> h" "j + m2 \<le> w" "i \<le> h" "j \<le> w" using r mb by auto
    have "cell out n c i j = cell s n c (m1 + i) (m2 + j) + cell s n c i j - cell s n c i (m2 + j) - cell s n c (m1 + i) j"
      using r by (simp add: out_def b_def a_def s1 s2 s3 s4)
    also have "\<dots> = rect_sum x n c 0 (i + m1) 0 (j + m2) + rect_sum x n c 0 i 0 j
                      - rect_sum x n c 0 i 0 (j + m2) - rect_sum x n c 0 (i + m1) 0 j"
      using r ij by (simp add: s_cell add.commute)
    also have "\<dots> = rect_sum x n c i (i + m1) j (j + m2)"
      by (rule rect_sum_corners)
    finally show ?thesis .
  qed
  have "div_scalar out (k1 * k2) = build (dimN x) (dimC x) (Suc h - m1) (Suc w - m2)
      (\<lambda>n c i j. cell out n c i j / of_int (k1 * k2))"
    by (simp add: div_scalar_def out_def)
  also have "\<dots> = build (dimN x) (dimC x) (Suc h - m1) (Suc w - m2)
      (\<lambda>n c i j. rect_sum x n c i (i + m1) j (j + m2) / of_int (k1 * k2))"
    by (rule build_cong) (simp add: cellwise)
  finally have "div_scalar out (k1 * k2) = build (dimN x) (dimC x) (Suc h - m1) (Suc w - m2)
      (\<lambda>n c i j. rect_sum x n c i (i + m1) j (j + m2) / of_int (k1 * k2))" .
  with run show ?thesis
    by (simp add: h_def w_def k1_def k2_def m1_def m2_def)
qed

lemma sum_list_concat_rows:
  fixes xss :: "rat list list"
  shows "sum_list (concat xss) = sum_list (map sum_list xss)"
  by (induction xss) simp_all

lemma sum_list_take_drop:
  fixes xs :: "rat list"
  assumes "i + k \<le> length xs"
  shows "sum_list (take k (drop i xs)) = (\<Sum>t = i..<i + k. xs ! t)"
proof -
  have len: "length (take k (drop i xs)) = k" using assms by simp
  have "sum_list (take k (drop i xs)) = (\<Sum>t = 0..<k. take k (drop i xs) ! t)"
    using sum_list_sum_nth [of "take k (drop i xs)"] len by simp
  also have "\<dots> = (\<Sum>t = 0..<k. xs ! (t + i))"
    using assms by (intro sum.cong refl) (simp add: add.commute)
  also have "\<dots> = (\<Sum>t = 0 + i..<k + i. xs ! t)"
    by (rule sum.shift_bounds_nat_ivl [symmetric])
  finally show ?thesis by (simp add: add.commute)
qed

lemma window_sum:
  assumes ws: "well_shaped x" and r: "n < dimN x" "c < dimC x"
    and fit: "i + k1 \<le> dimH x" "j + k2 \<le> dimW x"
  shows "sum_list (concat (map (\<lambda>row. take k2 (drop j row)) (take k1 (drop i (cells x ! n ! c)))))
         = rect_sum x n c i (i + k1) j (j + k2)"
proof -
  define rows where "rows = cells x ! n ! c"
  have len: "length rows = dimH x"
    using well_shaped_lengths(3) [OF ws r] by (simp add: rows_def)
  have row_len: "length (rows ! y) = dimW x" if "y < dimH x" for y
    using well_shaped_lengths(4) [OF ws r that] by (simp add: rows_def)
  define g where "g = (\<lambda>row :: rat list. sum_list (take k2 (drop j row)))"
  have "sum_list (concat (map (\<lambda>row. take k2 (drop j row)) (take k1 (drop i rows))))
        = sum_list (take k1 (drop i (map g rows)))"
    by (simp add: sum_list_concat_rows comp_def g_def take_map drop_map)
  also have "\<dots> = (\<Sum>y = i..<i + k1. map g rows ! y)"
    using fit(1) len by (intro sum_list_take_drop) simp
  also have "\<dots> = (\<Sum>y = i..<i + k1. \<Sum>x' = j..<j + k2. rows ! y ! x')"
  proof (rule sum.cong [OF refl])
    fix y assume "y \<in> {i..<i + k1}"
    then have y: "y < dimH x" using fit(1) by simp
    then have "map g rows ! y = g (rows ! y)" using len by simp
    also have "\<dots> = (\<Sum>x' = j..<j + k2. rows ! y ! x')"
      unfolding g_def using fit(2) row_len [OF y] by (intro sum_list_take_drop) simp
    finally show "map g rows ! y = (\<Sum>x' = j..<j + k2. rows ! y ! x')" .
  qed
  finally show ?thesis
    by (simp add: rect_sum_def cell_def rows_def)
qed

lemma window_mean_pool_eq:
  assumes ws: "well_shaped x" and k: "1 \<le> k1" "k1 \<le> dimH x" "1 \<le> k2" "k2 \<le> dimW x"
  shows "window_mean_pool k1 k2 x =
           build (dimN x) (dimC x) (Suc (dimH x) - k1) (Suc (dimW x) - k2)
             (\<lambda>n c i j. rect_sum x n c i (i + k1) j (j + k2) / of_nat (k1 * k2))"
  unfolding window_mean_pool_def
proof (simp, rule build_cong)
  fix n c i j
  assume "n < dimN x" "c < dimC x" "i < Suc (dimH x) - k1" "j < Suc (dimW x) - k2"
  then show "sum_list (concat (map (\<lambda>row. take k2 (drop j row)) (take k1 (drop i (cells x ! n ! c))))) / (of_nat k1 * of_nat k2)
      = rect_sum x n c i (i + k1) j (j + k2) / (of_nat k1 * of_nat k2)"
    using k by (simp add: window_sum [OF ws])
qed

lemma resolve_kernel_resolved:
  "kernel_size st = Some K \<Longrightarrow> resolve_kernel st x = (st, None)"
  by (simp add: resolve_kernel_def)

text \<open>
  Claim C1, as amended. Let \<open>k1 = min(h, kernel_size[0])\<close> and
  \<open>k2 = min(w, kernel_size[1])\<close> both be at least 1, and let the kernel not cover the
  whole map. Then the integral-image computation of \<open>forward\<close> (with
  \<open>fast_imp = False\<close>) returns the tensor of shape \<open>(n, c, h - k1 + 1, w - k2 + 1)\<close>
  whose element at \<open>(i, j)\<close> is the arithmetic mean of the input over the
  \<open>k1\<close>-by-\<open>k2\<close> window with top-left corner \<open>(i, j)\<close>: it equals the sliding-window
  reference.
\<close>

theorem integral_pool_window_mean:
  assumes ws: "well_shaped x"
    and sliding: "\<not> (int (dimH x) \<le> K0 \<and> int (dimW x) \<le> K1)"
    and k1: "1 \<le> min (int (dimH x)) K0" and k2: "1 \<le> min (int (dimW x)) K1"
    and st: "kernel_size st = Some (K0, K1)" "\<not> fast_imp st" "\<not> auto_pad st"
  shows "integral_pool K0 K1 x
           = Inr (window_mean_pool (nat (min (int (dimH x)) K0)) (nat (min (int (dimW x)) K1)) x)
       \<and> AvgPool2d_forward st x
           = (st, Inr (window_mean_pool (nat (min (int (dimH x)) K0)) (nat (min (int (dimW x)) K1)) x))
       \<and> shape (window_mean_pool (nat (min (int (dimH x)) K0)) (nat (min (int (dimW x)) K1)) x)
           = (dimN x, dimC x, Suc (dimH x) - nat (min (int (dimH x)) K0),
              Suc (dimW x) - nat (min (int (dimW x)) K1))
       \<and> (\<forall>n<dimN x. \<forall>c<dimC x.
            \<forall>i<Suc (dimH x) - nat (min (int (dimH x)) K0). \<forall>j<Suc (dimW x) - nat (min (int (dimW x)) K1).
              cell (window_mean_pool (nat (min (int (dimH x)) K0)) (nat (min (int (dimW x)) K1)) x) n c i j
                = rect_sum x n c i (i + nat (min (int (dimH x)) K0)) j (j + nat (min (int (dimW x)) K1))
                    / of_nat (nat (min (int (dimH x)) K0) * nat (min (int (dimW x)) K1)))"
proof -
  define m1 m2 where "m1 = nat (min (int (dimH x)) K0)" and "m2 = nat (min (int (dimW x)) K1)"
  have mb: "1 \<le> m1" "m1 \<le> dimH x" "1 \<le> m2" "m2 \<le> dimW x"
    using k1 k2 unfolding m1_def m2_def by linarith+
  have scal: "(of_int (min (int (dimH x)) K0 * min (int (dimW x)) K1) :: rat) = of_nat (m1 * m2)"
    using k1 k2 by (simp add: m1_def m2_def)
  note ref = window_mean_pool_eq [OF ws mb]
  have ip: "integral_pool K0 K1 x = Inr (window_mean_pool m1 m2 x)"
    unfolding ref integral_pool_eq [OF k1 k2] scal by (simp add: m1_def m2_def)
  have fw: "AvgPool2d_forward st x = (st, Inr (window_mean_pool m1 m2 x))"
    using sliding st ip
    by (auto simp: AvgPool2d_forward_def resolve_kernel_resolved [OF st(1)] pool_def)
  have sh: "shape (window_mean_pool m1 m2 x) = (dimN x, dimC x, Suc (dimH x) - m1, Suc (dimW x) - m2)"
    by (simp add: ref shape_def)
  have cl: "cell (window_mean_pool m1 m2 x) n c i j = rect_sum x n c i (i + m1) j (j + m2) / of_nat (m1 * m2)"
    if "n < dimN x" "c < dimC x" "i < Suc (dimH x) - m1" "j < Suc (dimW x) - m2" for n c i j
    using that by (simp add: ref)
  show ?thesis
    using ip fw sh cl unfolding m1_def m2_def by blast
qed

theorem integral_pool_window_mean_witness:
  "integral_pool 2 2 (Tensor 1 1 3 3 [[[[1, 2, 3], [4, 5, 6], [7, 8, 9]]]])
     = Inr (window_mean_pool 2 2 (Tensor 1 1 3 3 [[[[1, 2, 3], [4, 5, 6], [7, 8, 9]]]]))
   \<and> AvgPool2d_forward (AvgPool2d_init (Some (2, 2)) None False False None)
         (Tensor 1 1 3 3 [[[[1, 2, 3], [4, 5, 6], [7, 8, 9]]]])
     = (AvgPool2d_init (Some (2, 2)) None False False None,
        Inr (window_mean_pool 2 2 (Tensor 1 1 3 3 [[[[1, 2, 3], [4, 5, 6], [7, 8, 9]]]])))
   \<and> window_mean_pool 2 2 (Tensor 1 1 3 3 [[[[1, 2, 3], [4, 5, 6], [7, 8, 9]]]])
     = Tensor 1 1 2 2 [[[[3, 4], [6, 7]]]]"
proof -
  let ?x = "Tensor 1 1 3 3 [[[[1, 2, 3], [4, 5, 6], [7, 8, 9 :: rat]]]]"
  let ?st = "AvgPool2d_init (Some (2, 2)) None False False None"
  have ws: "well_shaped ?x" by (simp add: well_shaped_def)
  have ev: "window_mean_pool 2 2 ?x = Tensor 1 1 2 2 [[[[3, 4], [6, 7]]]]" by code_simp
  show ?thesis
    using integral_pool_window_mean [of ?x 2 2 ?st, OF ws] ev
    by (simp add: AvgPool2d_init_def)
qed

text \<open>
  Claim C1 as stated covers every kernel size that does not cover the whole map,
  also a kernel size of zero, which the resolution \<open>x.shape[2] * base_size[0] // train_size[-2]\<close>
  yields for a \<open>2 \<times> 2\<close> input with \<open>base_size = 1\<close> and a training size of \<open>4 \<times> 4\<close>.
  There \<open>s[:, :, :-0, :-0]\<close> is empty, \<open>s4 + s1\<close> has incompatible shapes, and the
  computation raises instead of returning window means.
\<close>

theorem integral_pool_zero_kernel_raises:
  "integral_pool 0 0 (Tensor 1 1 2 2 [[[[1, 2], [3, 4]]]]) = Inl RuntimeError
   \<and> AvgPool2d_forward (AvgPool2d_init None (Some (SizeInt 1)) False False (Some [1, 1, 4, 4]))
         (Tensor 1 1 2 2 [[[[1, 2], [3, 4]]]])
     = (\<lparr>kernel_size = Some (0, 0), base_size = Some (SizePair 1 1), auto_pad = False, fast_imp = False,
         rs = [5, 4, 3, 2, 1], max_r1 = 2, max_r2 = 2, train_size = Some [1, 1, 4, 4]\<rparr>,
        Inl RuntimeError)"
  by code_simp

subsection \<open>AvgPool2d: attributes and the global branch\<close>

lemma resolve_with_frame:
  assumes "resolve_with st b0 b1 x = (st', e)"
  shows "auto_pad st' = auto_pad st \<and> fast_imp st' = fast_imp st \<and> rs st' = rs st
         \<and> train_size st' = train_size st \<and> base_size st' = base_size st"
  using assms
  by (auto simp: resolve_with_def Let_def split: option.splits if_splits list.splits)

lemma resolve_kernel_frame:
  assumes "resolve_kernel st x = (st', e)"
  shows "auto_pad st' = auto_pad st \<and> fast_imp st' = fast_imp st \<and> rs st' = rs st
         \<and> train_size st' = train_size st"
  using assms
  by (auto simp: resolve_kernel_def split: option.splits if_splits size_arg.splits
      dest!: resolve_with_frame)

lemma AvgPool2d_forward_frame:
  assumes "AvgPool2d_forward st x = (st', res)"
  shows "auto_pad st' = auto_pad st \<and> fast_imp st' = fast_imp st \<and> rs st' = rs st
         \<and> train_size st' = train_size st"
proof -
  obtain st1 e where r: "resolve_kernel st x = (st1, e)" by (cases "resolve_kernel st x")
  then have "st' = st1"
    using assms by (cases e) (simp_all add: AvgPool2d_forward_def)
  then show ?thesis using resolve_kernel_frame [OF r] by simp
qed

lemma resolve_with_fast_imp:
  "resolve_with (st\<lparr>fast_imp := b\<rparr>) b0 b1 x
     = (fst (resolve_with st b0 b1 x)\<lparr>fast_imp := b\<rparr>, snd (resolve_with st b0 b1 x))"
  by (simp add: resolve_with_def Let_def split: option.splits list.splits)

lemma resolve_kernel_fast_imp:
  "resolve_kernel (st\<lparr>fast_imp := b\<rparr>) x
     = (fst (resolve_kernel st x)\<lparr>fast_imp := b\<rparr>, snd (resolve_kernel st x))"
proof -
  have "resolve_with (st\<lparr>fast_imp := b, base_size := bs\<rparr>) b0 b1 x
     = (fst (resolve_with (st\<lparr>base_size := bs\<rparr>) b0 b1 x)\<lparr>fast_imp := b\<rparr>,
        snd (resolve_with (st\<lparr>base_size := bs\<rparr>) b0 b1 x))" for bs b0 b1
    by (simp add: resolve_with_def Let_def split: option.splits list.splits)
  then show ?thesis
    by (simp add: resolve_kernel_def resolve_with_fast_imp split: option.splits size_arg.splits)
qed

text \<open>
  Claim C7. When the resolved kernel size covers the input (\<open>kernel_size[0] \<ge> h\<close> and
  \<open>kernel_size[1] \<ge> w\<close>), \<open>forward\<close> returns the adaptive average pooling to
  \<open>1 \<times> 1\<close>: a tensor of shape \<open>(n, c, 1, 1)\<close> whose values are the means of the
  channels' whole feature maps; and it returns the same for \<open>fast_imp = True\<close> and
  \<open>fast_imp = False\<close>.
\<close>

theorem global_pool_branch:
  assumes res: "resolve_kernel st x = (st', None)"
    and ks: "kernel_size st' = Some (K0, K1)"
    and cover: "int (dimH x) \<le> K0" "int (dimW x) \<le> K1"
  shows "AvgPool2d_forward st x = (st', Inr (adaptive_avg_pool2d x))
       \<and> AvgPool2d_forward (st\<lparr>fast_imp := True\<rparr>) x = (st'\<lparr>fast_imp := True\<rparr>, Inr (adaptive_avg_pool2d x))
       \<and> AvgPool2d_forward (st\<lparr>fast_imp := False\<rparr>) x = (st'\<lparr>fast_imp := False\<rparr>, Inr (adaptive_avg_pool2d x))
       \<and> shape (adaptive_avg_pool2d x) = (dimN x, dimC x, 1, 1)
       \<and> (\<forall>n<dimN x. \<forall>c<dimC x.
             cell (adaptive_avg_pool2d x) n c 0 0
               = sum_list (concat (cells x ! n ! c)) / of_nat (dimH x * dimW x))"
proof -
  have p: "pool s x = Inr (adaptive_avg_pool2d x)" if "kernel_size s = Some (K0, K1)" for s
    using that cover by (simp add: pool_def)
  have "AvgPool2d_forward st x = (st', Inr (adaptive_avg_pool2d x))"
    using res p [OF ks] by (simp add: AvgPool2d_forward_def)
  moreover have "AvgPool2d_forward (st\<lparr>fast_imp := b\<rparr>) x = (st'\<lparr>fast_imp := b\<rparr>, Inr (adaptive_avg_pool2d x))" for b
    using res ks p [of "st'\<lparr>fast_imp := b\<rparr>"]
    by (simp add: AvgPool2d_forward_def resolve_kernel_fast_imp)
  moreover have "shape (adaptive_avg_pool2d x) = (dimN x, dimC x, 1, 1)"
    by (simp add: shape_def adaptive_avg_pool2d_def)
  moreover have "cell (adaptive_avg_pool2d x) n c 0 0
               = sum_list (concat (cells x ! n ! c)) / of_nat (dimH x * dimW x)"
    if "n < dimN x" "c < dimC x" for n c
    using that by (simp add: adaptive_avg_pool2d_def)
  ultimately show ?thesis by blast
qed

theorem global_pool_branch_witness:
  "AvgPool2d_forward (AvgPool2d_init None (Some (SizeInt 6)) True False (Some [1, 1, 4, 4]))
       (Tensor 1 1 3 3 [[[[1, 2, 3], [4, 5, 6], [7, 8, 9]]]])
     = (\<lparr>kernel_size = Some (4, 4), base_size = Some (SizePair 6 6), auto_pad = True, fast_imp = False,
         rs = [5, 4, 3, 2, 1], max_r1 = 3, max_r2 = 3, train_size = Some [1, 1, 4, 4]\<rparr>,
        Inr (Tensor 1 1 1 1 [[[[5]]]]))
   \<and> AvgPool2d_forward (AvgPool2d_init None (Some (SizeInt 6)) True True (Some [1, 1, 4, 4]))
       (Tensor 1 1 3 3 [[[[1, 2, 3], [4, 5, 6], [7, 8, 9]]]])
     = (\<lparr>kernel_size = Some (4, 4), base_size = Some (SizePair 6 6), auto_pad = True, fast_imp = True,
         rs = [5, 4, 3, 2, 1], max_r1 = 3, max_r2 = 3, train_size = Some [1, 1, 4, 4]\<rparr>,
        Inr (Tensor 1 1 1 1 [[[[5]]]]))"
proof -
  let ?x = "Tensor 1 1 3 3 [[[[1, 2, 3], [4, 5, 6], [7, 8, 9 :: rat]]]]"
  let ?st = "AvgPool2d_init None (Some (SizeInt 6)) True False (Some [1, 1, 4, 4])"
  let ?st' = "\<lparr>kernel_size = Some (4, 4), base_size = Some (SizePair 6 6), auto_pad = True, fast_imp = False,
         rs = [5, 4, 3, 2, 1], max_r1 = 3, max_r2 = 3, train_size = Some [1, 1, 4, 4]\<rparr>"
  have res: "resolve_kernel ?st ?x = (?st', None)" by code_simp
  have ev: "adaptive_avg_pool2d ?x = Tensor 1 1 1 1 [[[[5]]]]" by code_simp
  have "kernel_size ?st' = Some (4, 4)" "int (dimH ?x) \<le> 4" "int (dimW ?x) \<le> 4" by simp_all
  from global_pool_branch [OF res this] ev show ?thesis
    by (simp add: AvgPool2d_init_def)
qed

subsection \<open>AvgPool2d: the kernel size is resolved once\<close>

lemma resolve_with_ok:
  assumes "train_size st = Some ts" "2 \<le> length ts"
    "ts ! (length ts - 2) \<noteq> 0" "ts ! (length ts - 1) \<noteq> 0" "rs st = r0 # rest"
  shows "resolve_with st b0 b1 x =
           (st\<lparr>kernel_size := Some (int (dimH x) * b0 div ts ! (length ts - 2),
                                     int (dimW x) * b1 div ts ! (length ts - 1)),
               max_r1 := max 1 (r0 * int (dimH x) div ts ! (length ts - 2)),
               max_r2 := max 1 (r0 * int (dimW x) div ts ! (length ts - 1))\<rparr>, None)"
  using assms by (simp add: resolve_with_def Let_def)

text \<open>
  Claim C9, as amended. Let the module be constructed with \<open>kernel_size = None\<close>, a
  \<open>base_size\<close> (a pair, or a non-zero int) and a \<open>train_size\<close> with at least two
  entries, the last two non-zero. Then the first call of \<open>forward\<close> stores
  \<open>kernel_size = [h * base_size[0] // train_size[-2], w * base_size[1] // train_size[-1]]\<close>,
  \<open>max_r1 = max(1, 5 * h // train_size[-2])\<close> and \<open>max_r2 = max(1, 5 * w // train_size[-1])\<close>
  for that call's input; every later call, on any input, leaves the module as it is;
  and no call of \<open>forward\<close>, on any module, changes \<open>auto_pad\<close>, \<open>fast_imp\<close>, \<open>rs\<close> or
  \<open>train_size\<close>.
\<close>

theorem kernel_size_resolved_once:
  assumes ts: "2 \<le> length ts" "ts ! (length ts - 2) \<noteq> 0" "ts ! (length ts - 1) \<noteq> 0"
    and bs: "bs = SizePair b0 b1 \<or> (bs = SizeInt b0 \<and> b1 = b0 \<and> b0 \<noteq> 0)"
    and first: "AvgPool2d_forward (AvgPool2d_init None (Some bs) ap fi (Some ts)) x = (st1, res)"
  shows "kernel_size st1 = Some (int (dimH x) * b0 div ts ! (length ts - 2),
                                int (dimW x) * b1 div ts ! (length ts - 1))
       \<and> max_r1 st1 = max 1 (5 * int (dimH x) div ts ! (length ts - 2))
       \<and> max_r2 st1 = max 1 (5 * int (dimW x) div ts ! (length ts - 1))
       \<and> (\<forall>x2. fst (AvgPool2d_forward st1 x2) = st1)
       \<and> (\<forall>st y. auto_pad (fst (AvgPool2d_forward st y)) = auto_pad st
                 \<and> fast_imp (fst (AvgPool2d_forward st y)) = fast_imp st
                 \<and> rs (fst (AvgPool2d_forward st y)) = rs st
                 \<and> train_size (fst (AvgPool2d_forward st y)) = train_size st)"
proof -
  let ?st0 = "AvgPool2d_init None (Some bs) ap fi (Some ts)"
  let ?k = "(int (dimH x) * b0 div ts ! (length ts - 2), int (dimW x) * b1 div ts ! (length ts - 1))"
  have "\<exists>st'. resolve_kernel ?st0 x = (st', None) \<and> kernel_size st' = Some ?k
          \<and> max_r1 st' = max 1 (5 * int (dimH x) div ts ! (length ts - 2))
          \<and> max_r2 st' = max 1 (5 * int (dimW x) div ts ! (length ts - 1))"
    using bs
  proof
    assume "bs = SizePair b0 b1"
    then show ?thesis
      using ts by (simp add: resolve_kernel_def AvgPool2d_init_def resolve_with_ok)
  next
    assume "bs = SizeInt b0 \<and> b1 = b0 \<and> b0 \<noteq> 0"
    then show ?thesis
      using ts by (simp add: resolve_kernel_def AvgPool2d_init_def resolve_with_ok)
  qed
  then obtain st' where r: "resolve_kernel ?st0 x = (st', None)" and k: "kernel_size st' = Some ?k"
    and m: "max_r1 st' = max 1 (5 * int (dimH x) div ts ! (length ts - 2))"
           "max_r2 st' = max 1 (5 * int (dimW x) div ts ! (length ts - 1))"
    by blast
  have "st1 = st'" using first r by (simp add: AvgPool2d_forward_def)
  moreover have "fst (AvgPool2d_forward st' x2) = st'" for x2
    using k by (simp add: AvgPool2d_forward_def resolve_kernel_resolved)
  moreover have "auto_pad (fst (AvgPool2d_forward st y)) = auto_pad st
                 \<and> fast_imp (fst (AvgPool2d_forward st y)) = fast_imp st
                 \<and> rs (fst (AvgPool2d_forward st y)) = rs st
                 \<and> train_size (fst (AvgPool2d_forward st y)) = train_size st" for st y
    using AvgPool2d_forward_frame [of st y "fst (AvgPool2d_forward st y)" "snd (AvgPool2d_forward st y)"]
    by simp
  ultimately show ?thesis using k m by blast
qed

theorem kernel_size_resolved_once_witness:
  "kernel_size (fst (AvgPool2d_forward
       (fst (AvgPool2d_forward (AvgPool2d_init None (Some (SizeInt 3)) True False (Some [1, 1, 4, 4]))
               (Tensor 1 1 3 3 [[[[1, 2, 3], [4, 5, 6], [7, 8, 9]]]])))
       (Tensor 1 1 1 2 [[[[1, 2]]]]))) = Some (2, 2)
   \<and> max_r1 (fst (AvgPool2d_forward (AvgPool2d_init None (Some (SizeInt 3)) True False (Some [1, 1, 4, 4]))
               (Tensor 1 1 3 3 [[[[1, 2, 3], [4, 5, 6], [7, 8, 9]]]]))) = 3"
proof -
  let ?st0 = "AvgPool2d_init None (Some (SizeInt 3)) True False (Some [1, 1, 4, 4])"
  let ?x = "Tensor 1 1 3 3 [[[[1, 2, 3], [4, 5, 6], [7, 8, 9 :: rat]]]]"
  have ts: "2 \<le> length [1, 1, 4, 4 :: int]" "[1, 1, 4, 4 :: int] ! (length [1, 1, 4, 4 :: int] - 2) \<noteq> 0"
    "[1, 1, 4, 4 :: int] ! (length [1, 1, 4, 4 :: int] - 1) \<noteq> 0"
    by simp_all
  have bs: "SizeInt 3 = SizePair 3 3 \<or> (SizeInt 3 = SizeInt 3 \<and> (3::int) = 3 \<and> (3::int) \<noteq> 0)" by simp
  have first: "AvgPool2d_forward ?st0 ?x = (fst (AvgPool2d_forward ?st0 ?x), snd (AvgPool2d_forward ?st0 ?x))"
    by simp
  from kernel_size_resolved_once [OF ts bs first]
  show ?thesis by simp
qed

text \<open>
  Claim C9 as stated covers every module constructed with \<open>kernel_size = None\<close> and a
  \<open>base_size\<close>, also the one with the constructor's default \<open>train_size = None\<close>. Its
  first call raises \<open>TypeError\<close> at \<open>train_size[-2]\<close>, after \<open>self.kernel_size\<close> was set
  to \<open>list(self.base_size)\<close>: the stored kernel size is the base size, not a value
  computed from the input shape, and \<open>max_r1\<close>, \<open>max_r2\<close> are not computed.
\<close>

theorem kernel_size_unresolved_without_train_size:
  "AvgPool2d_forward (AvgPool2d_init None (Some (SizeInt 5)) True False None)
       (Tensor 1 1 3 3 [[[[1, 2, 3], [4, 5, 6], [7, 8, 9]]]])
     = (\<lparr>kernel_size = Some (5, 5), base_size = Some (SizePair 5 5), auto_pad = True, fast_imp = False,
         rs = [5, 4, 3, 2, 1], max_r1 = 5, max_r2 = 5, train_size = None\<rparr>,
        Inl TypeError)"
  by code_simp

subsection \<open>AvgPool2d: padding back to the input size\<close>
















subsection \<open>replace_layers\<close>

lemma converted_children:
  "converted bs ts fi (Module k cs) = Module k (map (conv_child bs ts fi) cs)"
  by (simp add: conv_child_def)

lemma converted_leaf: "named_children m = [] \<Longrightarrow> converted bs ts fi m = m"
  by (cases m) simp

lemma is_adaptive_kind: "is_adaptive m \<longleftrightarrow> (\<exists>os. kind m = AdaptiveAvgPool2d os)"
  by (cases m rule: is_adaptive.cases) auto

lemma failing_kind: "failing m \<longleftrightarrow> (\<exists>os. kind m = AdaptiveAvgPool2d os \<and> os \<noteq> OutInt 1)"
  by (cases m rule: failing.cases) auto

lemma replace_layers_good:
  "(\<forall>m \<in> set (submodules t). \<not> failing m) \<Longrightarrow>
     replace_layers bs ts fi t = (converted bs ts fi t, None)"
  "(\<forall>p \<in> set cs. \<not> failing (snd p) \<and> (\<forall>m \<in> set (submodules (snd p)). \<not> failing m)) \<Longrightarrow>
     replace_children bs ts fi cs = (map (conv_child bs ts fi) cs, None)"
proof (induction bs ts fi t and bs ts fi cs rule: replace_layers_replace_children.induct)
  case (1 bs ts fi k cs)
  have "\<forall>p \<in> set cs. \<not> failing (snd p) \<and> (\<forall>m \<in> set (submodules (snd p)). \<not> failing m)"
    using "1.prems" by fastforce
  then show ?case
    using "1.IH" by (simp add: converted_children del: converted.simps)
next
  case (2 bs ts fi)
  then show ?case by simp
next
  case (3 bs ts fi n m rest)
  have gm: "\<not> failing m" "\<forall>m' \<in> set (submodules m). \<not> failing m'"
    and gr: "\<forall>p \<in> set rest. \<not> failing (snd p) \<and> (\<forall>m \<in> set (submodules (snd p)). \<not> failing m)"
    using "3.prems" by auto
  have inner: "(if named_children m \<noteq> [] then replace_layers bs ts fi m else (m, None))
      = (converted bs ts fi m, None)"
    using "3.IH"(1) gm(2) by (simp add: converted_leaf)
  show ?case
  proof (cases "is_adaptive m")
    case True
    then obtain os where os: "kind m = AdaptiveAvgPool2d os" by (auto simp: is_adaptive_kind)
    then have one: "os = OutInt 1" using gm(1) by (auto simp: failing_kind)
    have "replace_children bs ts fi rest = (map (conv_child bs ts fi) rest, None)"
      using "3.IH"(2) [OF inner [symmetric] refl os one] gr by simp
    then show ?thesis
      using inner os one True by (simp add: conv_child_def)
  next
    case False
    then have nk: "\<And>os. kind m \<noteq> AdaptiveAvgPool2d os" by (auto simp: is_adaptive_kind)
    have "replace_children bs ts fi rest = (map (conv_child bs ts fi) rest, None)"
    proof (cases "kind m")
      case (AdaptiveAvgPool2d os)
      then show ?thesis using nk by simp
    next
      case (AvgPool2dLayer p)
      then show ?thesis using "3.IH"(3) [OF inner [symmetric] refl] gr by simp
    next
      case (OtherLayer s)
      then show ?thesis using "3.IH"(4) [OF inner [symmetric] refl] gr by simp
    qed
    then show ?thesis
      using inner False nk by (cases "kind m") (auto simp: conv_child_def)
  qed
qed


lemma replace_layers_leaf: "named_children m = [] \<Longrightarrow> replace_layers bs ts fi m = (m, None)"
  by (cases m) simp

lemma descend_eq:
  "(if named_children m \<noteq> [] then replace_layers bs ts fi m else (m, None)) = replace_layers bs ts fi m"
  by (simp add: replace_layers_leaf)

lemma submodules_children:
  "(\<forall>m \<in> set (submodules (Module k cs)). \<not> failing m) \<longleftrightarrow> (\<forall>p \<in> set cs. good_child p)"
  by (fastforce simp: good_child_def)

lemma replace_children_step_good:
  assumes "good_child (n, m)"
  shows "replace_children bs ts fi ((n, m) # rest)
         = (conv_child bs ts fi (n, m) # fst (replace_children bs ts fi rest),
            snd (replace_children bs ts fi rest))"
proof -
  have inner: "replace_layers bs ts fi m = (converted bs ts fi m, None)"
    using assms by (simp add: replace_layers_good(1) good_child_def)
  show ?thesis
  proof (cases "kind m")
    case (AdaptiveAvgPool2d os)
    then have "os = OutInt 1" "is_adaptive m"
      using assms by (auto simp: good_child_def failing_kind is_adaptive_kind)
    then show ?thesis
      using AdaptiveAvgPool2d inner
      by (simp add: descend_eq conv_child_def split: prod.splits)
  next
    case (AvgPool2dLayer p)
    then have "\<not> is_adaptive m" by (simp add: is_adaptive_kind)
    then show ?thesis
      using AvgPool2dLayer inner
      by (simp add: descend_eq conv_child_def split: prod.splits)
  next
    case (OtherLayer s)
    then have "\<not> is_adaptive m" by (simp add: is_adaptive_kind)
    then show ?thesis
      using OtherLayer inner
      by (simp add: descend_eq conv_child_def split: prod.splits)
  qed
qed

lemma replace_layers_bad:
  "(\<exists>m \<in> set (submodules t). failing m) \<Longrightarrow>
     snd (replace_layers bs ts fi t) = Some AssertionError"
  "(\<exists>p \<in> set cs. \<not> good_child p) \<Longrightarrow>
     snd (replace_children bs ts fi cs) = Some AssertionError"
proof (induction bs ts fi t and bs ts fi cs rule: replace_layers_replace_children.induct)
  case (1 bs ts fi k cs)
  have "\<exists>p \<in> set cs. \<not> good_child p"
    using "1.prems" submodules_children [of k cs] by blast
  then have "snd (replace_children bs ts fi cs) = Some AssertionError"
    by (rule "1.IH")
  then show ?case
    by (cases "replace_children bs ts fi cs") simp
next
  case (2 bs ts fi)
  then show ?case by simp
next
  case (3 bs ts fi n m rest)
  show ?case
  proof (cases "\<exists>m' \<in> set (submodules m). failing m'")
    case True
    then have ne: "named_children m \<noteq> []" by (cases m) auto
    have "snd (replace_layers bs ts fi m) = Some AssertionError"
      using "3.IH"(1) [OF ne True] .
    then show ?thesis
      using ne by (cases "replace_layers bs ts fi m") simp
  next
    case inner_good: False
    then have inner: "replace_layers bs ts fi m = (converted bs ts fi m, None)"
      by (simp add: replace_layers_good(1))
    show ?thesis
    proof (cases "failing m")
      case True
      then obtain os where "kind m = AdaptiveAvgPool2d os" "os \<noteq> OutInt 1"
        by (auto simp: failing_kind)
      then show ?thesis
        using inner by (simp add: descend_eq)
    next
      case False
      then have g: "good_child (n, m)" using inner_good by (simp add: good_child_def)
      then have bad_rest: "\<exists>p \<in> set rest. \<not> good_child p" using "3.prems" by auto
      have d: "(converted bs ts fi m, None) = (if named_children m \<noteq> [] then replace_layers bs ts fi m else (m, None))"
        using inner by (simp add: descend_eq)
      have "snd (replace_children bs ts fi rest) = Some AssertionError"
      proof (cases "kind m")
        case (AdaptiveAvgPool2d os)
        then have "os = OutInt 1" using False by (auto simp: failing_kind)
        then show ?thesis using "3.IH"(2) [OF d refl AdaptiveAvgPool2d] bad_rest by simp
      next
        case (AvgPool2dLayer p)
        then show ?thesis using "3.IH"(3) [OF d refl] bad_rest by simp
      next
        case (OtherLayer s)
        then show ?thesis using "3.IH"(4) [OF d refl] bad_rest by simp
      qed
      then show ?thesis
        by (simp add: replace_children_step_good [OF g] del: replace_children.simps)
    qed
  qed
qed

lemma replace_children_prefix:
  assumes pre: "\<forall>p \<in> set pre. good_child p" and bad: "\<not> good_child (n, m)"
  shows "replace_children bs ts fi (pre @ (n, m) # rest)
         = (map (conv_child bs ts fi) pre @ (n, fst (replace_layers bs ts fi m)) # rest,
            Some AssertionError)"
  using pre
proof (induction pre)
  case Nil
  show ?case
  proof (cases "\<exists>m' \<in> set (submodules m). failing m'")
    case True
    then have "snd (replace_layers bs ts fi m) = Some AssertionError"
      by (rule replace_layers_bad(1))
    then show ?thesis
      by (cases "replace_layers bs ts fi m") (simp add: descend_eq)
  next
    case False
    then have inner: "replace_layers bs ts fi m = (converted bs ts fi m, None)"
      by (simp add: replace_layers_good(1))
    from False bad have "failing m" by (simp add: good_child_def)
    then obtain os where "kind m = AdaptiveAvgPool2d os" "os \<noteq> OutInt 1"
      by (auto simp: failing_kind)
    then show ?thesis
      using inner by (simp add: descend_eq)
  qed
next
  case (Cons p pre)
  obtain n0 m0 where p: "p = (n0, m0)" by (cases p)
  have g: "good_child (n0, m0)" using Cons.prems p by simp
  show ?case
    using Cons.IH Cons.prems
    by (simp add: p replace_children_step_good [OF g] del: replace_children.simps)
qed


lemma kind_converted [simp]: "kind (converted bs ts fi m) = kind m"
  by (cases m) simp

lemma is_adaptive_converted [simp]: "is_adaptive (converted bs ts fi m) = is_adaptive m"
  by (simp add: is_adaptive_kind)

lemma fresh_pool_plain [simp]:
  "\<not> is_adaptive (fresh_pool bs ts fi)" "submodules (fresh_pool bs ts fi) = []"
  by (simp_all add: fresh_pool_def)




text \<open>
  Claim C3. \<open>replace_layers\<close> raises if and only if some submodule of the model is an
  \<open>nn.AdaptiveAvgPool2d\<close> whose \<open>output_size\<close> is not \<open>1\<close>, and then it raises
  \<open>AssertionError\<close>. When the first child that does not pass is \<open>(n, m)\<close>, the children
  before it have been rewritten, \<open>m\<close> is left as the walk inside it left it, and the
  children after it are untouched: the rewrite is not atomic.
\<close>

theorem replace_layers_raises_iff:
  "(snd (replace_layers bs ts fi model) \<noteq> None \<longleftrightarrow> (\<exists>m \<in> set (submodules model). failing m))
   \<and> (snd (replace_layers bs ts fi model) = None \<or> snd (replace_layers bs ts fi model) = Some AssertionError)
   \<and> (\<forall>pre n m rest.
         named_children model = pre @ (n, m) # rest \<and> (\<forall>p \<in> set pre. good_child p) \<and> \<not> good_child (n, m)
         \<longrightarrow> replace_layers bs ts fi model
               = (Module (kind model)
                    (map (conv_child bs ts fi) pre @ (n, fst (replace_layers bs ts fi m)) # rest),
                  Some AssertionError))"
proof -
  have iff: "snd (replace_layers bs ts fi model) \<noteq> None \<longleftrightarrow> (\<exists>m \<in> set (submodules model). failing m)"
    and err: "snd (replace_layers bs ts fi model) = None \<or> snd (replace_layers bs ts fi model) = Some AssertionError"
  proof -
    show "snd (replace_layers bs ts fi model) \<noteq> None \<longleftrightarrow> (\<exists>m \<in> set (submodules model). failing m)"
      using replace_layers_good(1) [of model bs ts fi] replace_layers_bad(1) [of model bs ts fi]
      by (cases "\<exists>m \<in> set (submodules model). failing m") auto
    show "snd (replace_layers bs ts fi model) = None \<or> snd (replace_layers bs ts fi model) = Some AssertionError"
      using replace_layers_good(1) [of model bs ts fi] replace_layers_bad(1) [of model bs ts fi]
      by (cases "\<exists>m \<in> set (submodules model). failing m") auto
  qed
  have pre: "replace_layers bs ts fi model
               = (Module (kind model)
                    (map (conv_child bs ts fi) pre @ (n, fst (replace_layers bs ts fi m)) # rest),
                  Some AssertionError)"
    if "named_children model = pre @ (n, m) # rest" "\<forall>p \<in> set pre. good_child p" "\<not> good_child (n, m)"
    for pre n m rest
    using replace_children_prefix [OF that(2,3), of bs ts fi rest] that(1)
    by (cases model) simp
  show ?thesis using iff err pre by blast
qed

theorem replace_layers_raises_iff_witness:
  "replace_layers (Some (SizeInt 384)) (Some [1, 3, 256, 256]) False
     (Module (OtherLayer ''Net'')
        [(''a'', Module (AdaptiveAvgPool2d (OutInt 1)) []),
         (''b'', Module (OtherLayer ''Sequential'')
            [(''0'', Module (AdaptiveAvgPool2d (OutInt 1)) []),
             (''1'', Module (AdaptiveAvgPool2d (OutTuple [Some 1, Some 1])) [])]),
         (''c'', Module (AdaptiveAvgPool2d (OutInt 1)) [])])
   = (Module (OtherLayer ''Net'')
        [(''a'', fresh_pool (Some (SizeInt 384)) (Some [1, 3, 256, 256]) False),
         (''b'', Module (OtherLayer ''Sequential'')
            [(''0'', fresh_pool (Some (SizeInt 384)) (Some [1, 3, 256, 256]) False),
             (''1'', Module (AdaptiveAvgPool2d (OutTuple [Some 1, Some 1])) [])]),
         (''c'', Module (AdaptiveAvgPool2d (OutInt 1)) [])],
      Some AssertionError)"
proof -
  let ?a = "Module (AdaptiveAvgPool2d (OutInt 1)) []"
  let ?b = "Module (OtherLayer ''Sequential'')
            [(''0'', Module (AdaptiveAvgPool2d (OutInt 1)) []),
             (''1'', Module (AdaptiveAvgPool2d (OutTuple [Some 1, Some 1])) [])]"
  let ?m = "Module (OtherLayer ''Net'') [(''a'', ?a), (''b'', ?b), (''c'', ?a)]"
  let ?bs = "Some (SizeInt 384)" and ?ts = "Some [1, 3, 256, 256 :: int]"
  have split: "named_children ?m = [(''a'', ?a)] @ (''b'', ?b) # [(''c'', ?a)]"
    by code_simp
  have pre: "\<forall>p \<in> set [(''a'', ?a)]. good_child p"
    by code_simp
  have bad: "\<not> good_child (''b'', ?b)"
    by code_simp
  have ev: "Module (kind ?m) (map (conv_child ?bs ?ts False) [(''a'', ?a)]
                            @ (''b'', fst (replace_layers ?bs ?ts False ?b)) # [(''c'', ?a)])
      = Module (OtherLayer ''Net'')
        [(''a'', fresh_pool ?bs ?ts False),
         (''b'', Module (OtherLayer ''Sequential'')
            [(''0'', fresh_pool ?bs ?ts False),
             (''1'', Module (AdaptiveAvgPool2d (OutTuple [Some 1, Some 1])) [])]),
         (''c'', ?a)]"
    by code_simp
  have "replace_layers ?bs ?ts False ?m
      = (Module (kind ?m) (map (conv_child ?bs ?ts False) [(''a'', ?a)]
                            @ (''b'', fst (replace_layers ?bs ?ts False ?b)) # [(''c'', ?a)]),
         Some AssertionError)"
    using replace_layers_raises_iff [of ?bs ?ts False ?m, THEN conjunct2, THEN conjunct2, rule_format,
        OF conjI [OF split conjI [OF pre bad]]] .
  then show ?thesis by (simp only: ev)
qed

subsection \<open>The shapes of the forward pass of RLFN_Prune\<close>

lemma and_then_Inr [simp]: "and_then (Inr v) f = f v"
  by (simp add: and_then_def)

lemma broadcast_shape_same [simp]: "broadcast_shape s s = Inr s"
  by (cases s) (simp add: broadcast_shape_def bdim_def)

lemma Conv2d_init_plain [simp]:
  "Conv2d_init a b k st p (Suc 0) = Inr (Conv2dL a b k st p (Suc 0))"
  by (simp add: Conv2d_init_def)

lemma Conv2d_init_plain_one [simp]:
  "Conv2d_init a b k st p 1 = Inr (Conv2dL a b k st p 1)"
  by (simp add: Conv2d_init_def)












subsection \<open>The rate selection of the fast branch\<close>

lemma rates_dividing_default:
  "rates_dividing [5, 4, 3, 2, 1] h =
     Inr (filter (\<lambda>r. h mod r = 0) [5, 4, 3, 2, 1])"
  by simp

lemma first_rate_default_cases:
  "first_rate [5, 4, 3, 2, 1] h =
     Inr (if h mod 5 = 0 then 5 else if h mod 4 = 0 then 4 else if h mod 3 = 0 then 3
          else if h mod 2 = 0 then 2 else 1)"
  by (simp add: first_rate_def)

text \<open>
  Claim C8. With \<open>self.rs = [5, 4, 3, 2, 1]\<close> as set by \<open>__init__\<close>, the selections
  \<open>r1 = [r for r in self.rs if h % r == 0][0]\<close> and
  \<open>r2 = [r for r in self.rs if w % r == 0][0]\<close> never fail for positive \<open>h\<close> and \<open>w\<close>:
  each returns a rate that is at least 1 (and divides the size).
\<close>

theorem first_rate_never_fails:
  assumes "0 < h" and "0 < w"
  shows "\<exists>r1 r2. first_rate (rs (AvgPool2d_init ks bs ap fi ts)) (int h) = Inr r1
           \<and> first_rate (rs (AvgPool2d_init ks bs ap fi ts)) (int w) = Inr r2
           \<and> 1 \<le> r1 \<and> 1 \<le> r2 \<and> r1 dvd int h \<and> r2 dvd int w"
proof -
  have sel: "\<And>k. \<exists>r. first_rate [5, 4, 3, 2, 1] k = Inr r \<and> 1 \<le> r \<and> r dvd k"
    unfolding first_rate_default_cases by (auto simp: dvd_eq_mod_eq_0)
  obtain r1 where "first_rate [5, 4, 3, 2, 1] (int h) = Inr r1" "1 \<le> r1" "r1 dvd int h"
    using sel by blast
  moreover obtain r2 where "first_rate [5, 4, 3, 2, 1] (int w) = Inr r2" "1 \<le> r2" "r2 dvd int w"
    using sel by blast
  ultimately show ?thesis
    by (simp add: AvgPool2d_init_def)
qed

theorem first_rate_never_fails_witness:
  "\<exists>r1 r2. first_rate (rs (AvgPool2d_init None (Some (SizeInt 384)) True True (Some [1, 3, 256, 256]))) (int 8) = Inr r1
     \<and> first_rate (rs (AvgPool2d_init None (Some (SizeInt 384)) True True (Some [1, 3, 256, 256]))) (int 6) = Inr r2
     \<and> 1 \<le> r1 \<and> 1 \<le> r2 \<and> r1 dvd int 8 \<and> r2 dvd int 6"
  using first_rate_never_fails [of 8 6] by simp

end
